theory Spec2Isabelle
  imports Main "HOL-Library.AList" "HOL-Library.Multiset"
begin

section \<open>JavaScript values\<close>

text \<open>
  The application (\<^verbatim>\<open>assets/js/app.js\<close>) keeps its tasks as plain JavaScript objects that
  are written to and read back from \<^verbatim>\<open>localStorage\<close> as JSON. A number is finite, one of
  the two infinities (\<^verbatim>\<open>JSON.parse("1e999")\<close>) or \<^verbatim>\<open>NaN\<close> (\<^verbatim>\<open>5 - undefined\<close>).
  A finite number is a binary64 double. The finite numbers here are the integral ones:
  every number the program computes with is a millisecond count (\<^verbatim>\<open>Date.now()\<close>, a
  difference or a sum of such). \<open>Fin n\<close> is the double whose value is the integer \<open>n\<close>;
  an addition rounds its exact result to the nearest double (section "Numbers and
  durations").
\<close>

datatype jsnum = Fin int | PosInf | NegInf | NaN

datatype jsval =
    JNull
  | JBool bool
  | JNum jsnum
  | JStr string
  | JArr "jsval list"
  | JObj "(string \<times> jsval) list"

text \<open>
  An object is its list of properties in insertion order. Reading a property that is
  absent gives \<^verbatim>\<open>undefined\<close>, which is \<open>None\<close> here: \<^verbatim>\<open>task.f\<close> is \<open>map_of task ''f''\<close>.
\<close>

type_synonym jsobj = "(string \<times> jsval) list"

datatype js_error = TypeError

text \<open>\<^verbatim>\<open>ToBoolean\<close>, as \<^verbatim>\<open>||\<close>, \<^verbatim>\<open>!\<close> and \<^verbatim>\<open>Boolean(...)\<close> apply it.\<close>

definition truthy :: "jsval option \<Rightarrow> bool" where
  "truthy v =
     (case v of
        None \<Rightarrow> False
      | Some JNull \<Rightarrow> False
      | Some (JBool b) \<Rightarrow> b
      | Some (JNum n) \<Rightarrow> n \<noteq> Fin 0 \<and> n \<noteq> NaN
      | Some (JStr s) \<Rightarrow> s \<noteq> []
      | Some (JArr xs) \<Rightarrow> True
      | Some (JObj ps) \<Rightarrow> True)"

text \<open>\<^verbatim>\<open>Number.isFinite(v)\<close>: a number, and a finite one; no coercion.\<close>

definition isFinite :: "jsval option \<Rightarrow> bool" where
  "isFinite v = (case v of Some (JNum (Fin n)) \<Rightarrow> True | _ \<Rightarrow> False)"

text \<open>\<^verbatim>\<open>Array.isArray(v)\<close>.\<close>

definition isArray :: "jsval option \<Rightarrow> bool" where
  "isArray v = (case v of Some (JArr xs) \<Rightarrow> True | _ \<Rightarrow> False)"

text \<open>\<^verbatim>\<open>{...obj, k1: v1, ..., kn: vn}\<close>: the properties of \<open>obj\<close> in their order, each
  \<open>ki\<close> overwritten in place when \<open>obj\<close> has it and added at the end otherwise.\<close>

definition assign :: "(string \<times> jsval) list \<Rightarrow> jsobj \<Rightarrow> jsobj" where
  "assign kvs obj = fold (\<lambda>(k, v). AList.update k v) kvs obj"

section \<open>Strings\<close>

text \<open>
  A \<open>char\<close> is a code unit below 256 (Latin-1). \<^verbatim>\<open>String.prototype.trim\<close> removes
  white space and line terminators from both ends; in this range they are TAB, LF, VT,
  FF, CR, SPACE and NBSP. \<^verbatim>\<open>toLowerCase\<close> maps A-Z and the Latin-1 capitals.
\<close>

definition isWhiteSpace :: "char \<Rightarrow> bool" where
  "isWhiteSpace c = (of_char c \<in> {9, 10, 11, 12, 13, 32, 160 :: nat})"

definition trim :: "string \<Rightarrow> string" where
  "trim s = rev (dropWhile isWhiteSpace (rev (dropWhile isWhiteSpace s)))"

definition lowerChar :: "char \<Rightarrow> char" where
  "lowerChar c =
     (let n = (of_char c :: nat)
      in if (65 \<le> n \<and> n \<le> 90) \<or> (192 \<le> n \<and> n \<le> 214) \<or> (216 \<le> n \<and> n \<le> 222)
         then char_of (n + 32) else c)"

definition toLowerCase :: "string \<Rightarrow> string" where
  "toLowerCase s = map lowerChar s"

section \<open>The normalizer\<close>

text \<open>
  \<^verbatim>\<open>task.name?.trim() || 'Untitled item'\<close>. The optional chain stops at \<^verbatim>\<open>undefined\<close> and
  \<^verbatim>\<open>null\<close> only: on any other value that is not a string, \<^verbatim>\<open>task.name.trim\<close> is
  \<^verbatim>\<open>undefined\<close> and the call throws a \<^verbatim>\<open>TypeError\<close>.
\<close>

definition trimmedName :: "jsval option \<Rightarrow> js_error + string" where
  "trimmedName v =
     (case v of
        None \<Rightarrow> Inr ''Untitled item''
      | Some JNull \<Rightarrow> Inr ''Untitled item''
      | Some (JStr s) \<Rightarrow> Inr (if trim s = [] then ''Untitled item'' else trim s)
      | Some other \<Rightarrow> Inl TypeError)"

text \<open>\<^verbatim>\<open>Number.isFinite(v) ? v : d\<close>.\<close>

definition finiteOr :: "jsval option \<Rightarrow> jsval \<Rightarrow> jsval" where
  "finiteOr v d = (case v of Some x \<Rightarrow> if isFinite (Some x) then x else d | None \<Rightarrow> d)"

text \<open>\<^verbatim>\<open>Array.isArray(v) ? v : d\<close>.\<close>

definition arrayOr :: "jsval option \<Rightarrow> jsval \<Rightarrow> jsval" where
  "arrayOr v d = (case v of Some x \<Rightarrow> if isArray (Some x) then x else d | None \<Rightarrow> d)"

text \<open>\<^verbatim>\<open>v || d\<close>: the left operand when it is truthy, the right one otherwise.\<close>

definition orElse :: "jsval option \<Rightarrow> jsval \<Rightarrow> jsval" where
  "orElse v d = (case v of Some x \<Rightarrow> if truthy (Some x) then x else d | None \<Rightarrow> d)"

text \<open>\<^verbatim>\<open>v ?? d\<close>: the right operand when the left one is \<^verbatim>\<open>undefined\<close> or \<^verbatim>\<open>null\<close>.\<close>

definition nullishOr :: "jsval option \<Rightarrow> jsval \<Rightarrow> jsval" where
  "nullishOr v d = (case v of None \<Rightarrow> d | Some JNull \<Rightarrow> d | Some x \<Rightarrow> x)"

text \<open>
  \<^verbatim>\<open>normalizeTask(task)\<close>, lines 55-75; \<open>now\<close> is what its one \<^verbatim>\<open>Date.now()\<close> reads.
\<close>

definition normalizeTask :: "int \<Rightarrow> jsobj \<Rightarrow> js_error + jsobj" where
  "normalizeTask now task =
     (let createdAt = finiteOr (map_of task ''createdAt'') (JNum (Fin now));
          lastUpdatedMs = finiteOr (map_of task ''lastUpdatedMs'') createdAt
      in case trimmedName (map_of task ''name'') of
           Inl e \<Rightarrow> Inl e
         | Inr nm \<Rightarrow>
             Inr (AList.delete ''startedAt''
               (assign
                 [(''name'', JStr nm),
                  (''description'', orElse (map_of task ''description'') (JStr [])),
                  (''logs'', arrayOr (map_of task ''logs'') (JArr [])),
                  (''elapsedMs'', finiteOr (map_of task ''elapsedMs'') (JNum (Fin 0))),
                  (''isRunning'', JBool False),
                  (''isArchived'', JBool (truthy (map_of task ''isArchived''))),
                  (''createdAt'', createdAt),
                  (''lastUpdatedMs'', lastUpdatedMs),
                  (''lastChecked'', nullishOr (map_of task ''lastChecked'') JNull)]
                 task)))"

text \<open>
  The load path of \<^verbatim>\<open>bootstrapApp\<close>, lines 137-139: the stored tasks when the slot holds
  a non-empty list, the seed tasks otherwise, each passed through the normalizer.
  \<open>existing\<close> is \<open>None\<close> when \<^verbatim>\<open>loadFromStorage()\<close> returns \<^verbatim>\<open>null\<close> or a payload
  without \<^verbatim>\<open>tasks\<close>. \<open>clock k\<close> is the time the \<open>k\<close>-th call of the normalizer reads.
  An exception thrown for one task leaves the whole load without a result.
\<close>

fun normalizeFrom :: "(nat \<Rightarrow> int) \<Rightarrow> nat \<Rightarrow> jsobj list \<Rightarrow> js_error + jsobj list" where
  "normalizeFrom clock k [] = Inr []"
| "normalizeFrom clock k (t # ts) =
     (case normalizeTask (clock k) t of
        Inl e \<Rightarrow> Inl e
      | Inr u \<Rightarrow>
          (case normalizeFrom clock (Suc k) ts of
             Inl e \<Rightarrow> Inl e
           | Inr us \<Rightarrow> Inr (u # us)))"

definition bootstrapApp ::
  "(nat \<Rightarrow> int) \<Rightarrow> jsobj list option \<Rightarrow> jsobj list \<Rightarrow> js_error + jsobj list" where
  "bootstrapApp clock existing seed =
     (let seededTasks =
            (case existing of
               None \<Rightarrow> seed
             | Some ts \<Rightarrow> if ts \<noteq> [] then ts else seed)
      in normalizeFrom clock 0 seededTasks)"

section \<open>The duplicate detector\<close>

text \<open>
  \<^verbatim>\<open>calculateDuplicates(tasks)\<close>, lines 77-93. A \<^verbatim>\<open>Map\<close> is the list of its entries in
  insertion order; \<^verbatim>\<open>set\<close> on a key it holds keeps the key's place.
\<close>

definition nameKey :: "jsobj \<Rightarrow> string" where
  "nameKey task =
     (case map_of task ''name'' of Some (JStr s) \<Rightarrow> toLowerCase (trim s) | _ \<Rightarrow> [])"

definition referenceKey :: "jsobj \<Rightarrow> string" where
  "referenceKey task =
     (case map_of task ''reference'' of Some (JStr s) \<Rightarrow> toLowerCase (trim s) | _ \<Rightarrow> [])"

text \<open>\<^verbatim>\<open>counts.get(key) || 0\<close>.\<close>

definition countOf :: "(string \<times> nat) list \<Rightarrow> string \<Rightarrow> nat" where
  "countOf counts key = (case map_of counts key of Some c \<Rightarrow> c | None \<Rightarrow> 0)"

text \<open>\<^verbatim>\<open>if (key) counts.set(key, (counts.get(key) || 0) + 1)\<close>.\<close>

definition countKey :: "string \<Rightarrow> (string \<times> nat) list \<Rightarrow> (string \<times> nat) list" where
  "countKey key counts =
     (if key \<noteq> [] then AList.update key (countOf counts key + 1) counts else counts)"

text \<open>\<^verbatim>\<open>new Set([...counts.entries()].filter(([, count]) => count > 1).map(([key]) => key))\<close>.\<close>

definition repeatedKeys :: "(string \<times> nat) list \<Rightarrow> string set" where
  "repeatedKeys counts = set (map fst (filter (\<lambda>(key, count). count > 1) counts))"

record duplicates =
  names :: "string set"
  references :: "string set"

definition calculateDuplicates :: "jsobj list \<Rightarrow> duplicates" where
  "calculateDuplicates tasks =
     (let (nameCounts, referenceCounts) =
            fold (\<lambda>task (nc, rc). (countKey (nameKey task) nc, countKey (referenceKey task) rc))
              tasks ([], [])
      in \<lparr>names = repeatedKeys nameCounts, references = repeatedKeys referenceCounts\<rparr>)"

section \<open>Numbers and durations\<close>

text \<open>
  The doubles with an integral value are the integers below \<open>2 ^ 53\<close> in magnitude and,
  between \<open>2 ^ k\<close> and \<open>2 ^ (k + 1)\<close> for \<open>k\<close> from 53 on, the multiples of
  \<open>2 ^ (k - 52)\<close>. \<open>bitLength m\<close> is the number of binary digits of \<open>m\<close>, which is \<open>k + 1\<close>
  in that interval. \<open>roundToDouble m\<close> is the magnitude of the double nearest to the
  natural number \<open>m\<close>, of two that are equally near the one with the even significand
  (round to nearest, ties to even).
\<close>

fun bitLength :: "nat \<Rightarrow> nat" where
  "bitLength n = (if n = 0 then 0 else Suc (bitLength (n div 2)))"

declare bitLength.simps [simp del]

definition roundToDouble :: "nat \<Rightarrow> nat" where
  "roundToDouble m =
     (if m < 2 ^ 53 then m
      else
        (let ulp = 2 ^ (bitLength m - 53);
             q = m div ulp;
             r = m mod ulp
         in if 2 * r < ulp \<or> (2 * r = ulp \<and> even q) then q * ulp else (q + 1) * ulp))"

text \<open>
  The double that an exact integer result is rounded to. A magnitude that rounds to
  \<open>2 ^ 1024\<close> or more is beyond the largest double and gives an infinity.
\<close>

definition toDouble :: "int \<Rightarrow> jsnum" where
  "toDouble n =
     (let m = roundToDouble (nat \<bar>n\<bar>)
      in if 2 ^ 1024 \<le> m then (if n < 0 then NegInf else PosInf)
         else Fin (if n < 0 then - int m else int m))"

text \<open>\<^verbatim>\<open>x + y\<close> on numbers: the exact sum of two finite numbers, rounded.\<close>

fun jsAdd :: "jsnum \<Rightarrow> jsnum \<Rightarrow> jsnum" where
  "jsAdd (Fin a) (Fin b) = toDouble (a + b)"
| "jsAdd NaN y = NaN"
| "jsAdd x NaN = NaN"
| "jsAdd PosInf NegInf = NaN"
| "jsAdd NegInf PosInf = NaN"
| "jsAdd PosInf y = PosInf"
| "jsAdd x PosInf = PosInf"
| "jsAdd NegInf y = NegInf"
| "jsAdd x NegInf = NegInf"

fun jsNeg :: "jsnum \<Rightarrow> jsnum" where
  "jsNeg (Fin a) = Fin (- a)"
| "jsNeg PosInf = NegInf"
| "jsNeg NegInf = PosInf"
| "jsNeg NaN = NaN"

definition jsSub :: "jsnum \<Rightarrow> jsnum \<Rightarrow> jsnum" where
  "jsSub x y = jsAdd x (jsNeg y)"

text \<open>\<^verbatim>\<open>x < 0\<close>: false of \<^verbatim>\<open>NaN\<close>.\<close>

fun negative :: "jsnum \<Rightarrow> bool" where
  "negative (Fin n) = (n < 0)"
| "negative NegInf = True"
| "negative PosInf = False"
| "negative NaN = False"

text \<open>\<^verbatim>\<open>ToNumber\<close> of a property that holds a number or is absent: \<^verbatim>\<open>undefined\<close> is \<^verbatim>\<open>NaN\<close>.\<close>

definition toNumber :: "int option \<Rightarrow> jsnum" where
  "toNumber v = (case v of None \<Rightarrow> NaN | Some n \<Rightarrow> Fin n)"

text \<open>The decimal digits of an integer, as \<^verbatim>\<open>toString()\<close> writes it.\<close>

fun decimal :: "nat \<Rightarrow> string" where
  "decimal n =
     (if n < 10 then [char_of (48 + n)] else decimal (n div 10) @ [char_of (48 + n mod 10)])"

declare decimal.simps [simp del]

definition intToString :: "int \<Rightarrow> string" where
  "intToString i = (if i < 0 then CHR ''-'' # decimal (nat (- i)) else decimal (nat i))"

definition padStart :: "nat \<Rightarrow> char \<Rightarrow> string \<Rightarrow> string" where
  "padStart n c s = replicate (n - length s) c @ s"

text \<open>\<^verbatim>\<open>a % b\<close> for a positive \<open>b\<close>: the remainder has the sign of the dividend.\<close>

definition jsRem :: "int \<Rightarrow> int \<Rightarrow> int" where
  "jsRem a b = (if a < 0 then - ((- a) mod b) else a mod b)"

text \<open>
  \<^verbatim>\<open>formatDuration(ms)\<close>, lines 548-560. \<^verbatim>\<open>Math.floor\<close> of a quotient is \<open>div\<close>. Of an
  infinity the seconds are infinite and both remainders are \<^verbatim>\<open>NaN\<close>.
\<close>

definition formatDuration :: "jsnum \<Rightarrow> string" where
  "formatDuration ms =
     (case ms of
        Fin m \<Rightarrow>
          (let totalSeconds = m div 1000;
               hours = padStart 2 (CHR ''0'') (intToString (totalSeconds div 3600));
               minutes = padStart 2 (CHR ''0'') (intToString (jsRem totalSeconds 3600 div 60));
               seconds = padStart 2 (CHR ''0'') (intToString (jsRem totalSeconds 60))
           in hours @ '':'' @ minutes @ '':'' @ seconds)
      | PosInf \<Rightarrow> ''Infinity:NaN:NaN''
      | NegInf \<Rightarrow> ''-Infinity:NaN:NaN''
      | NaN \<Rightarrow> ''NaN:NaN:NaN'')"

section \<open>The task store and the timer engine\<close>

text \<open>
  The functions below work on the tasks of \<^verbatim>\<open>state.tasks\<close>, which are objects the
  normalizer has returned and the engine has then written to. Their fields have the
  types the normalizer and the engine give them: \<open>elapsedMs\<close> is a number, \<open>logs\<close> an
  array of the entries \<^verbatim>\<open>finalizeLog\<close> builds, \<open>isRunning\<close> and \<open>isArchived\<close> are booleans,
  \<open>startedAt\<close> is absent (\<open>None\<close>) or the number \<^verbatim>\<open>startTimer\<close> stored. The field \<^verbatim>\<open>id\<close> is
  \<open>task_id\<close> and \<^verbatim>\<open>type\<close> is \<open>task_type\<close>. The page, its dialog and the \<^verbatim>\<open>localStorage\<close>
  copy that \<^verbatim>\<open>persist()\<close> writes are not part of the state. The engine puts entries in
  front of \<open>logs\<close> and never reads one; the exporter, which does read them, is modelled
  on the stored object with whatever its \<^verbatim>\<open>logs\<close> array holds (section "The CSV exporter").
\<close>

record log_entry =
  date :: string
  duration :: string
  comment :: string
  timestamp :: int

record task =
  task_id :: string
  task_type :: string
  name :: string
  reference :: string
  description :: string
  isCritical :: bool
  elapsedMs :: jsnum
  logs :: "log_entry list"
  isRunning :: bool
  startedAt :: "int option"
  isArchived :: bool
  lastLog :: "string option"
  createdAt :: int
  lastUpdatedMs :: int
  lastChecked :: "int option"

text \<open>
  \<^verbatim>\<open>state\<close>, lines 1-11: the tasks, the interval handle registered for a task id, and
  the pending session \<^verbatim>\<open>{ id, duration }\<close> (\<open>None\<close> is \<^verbatim>\<open>null\<close>).
\<close>

record state =
  tasks :: "task list"
  timers :: "(string \<times> nat) list"
  pendingLog :: "(string \<times> jsnum) option"

text \<open>\<^verbatim>\<open>state.tasks.find((t) => t.id === id)\<close>: the first task with that id.\<close>

definition find_task :: "string \<Rightarrow> state \<Rightarrow> task option" where
  "find_task i s = List.find (\<lambda>t. task_id t = i) (tasks s)"

text \<open>
  The object \<^verbatim>\<open>find\<close> returned is the one in the array, so writing to its fields changes
  the first task with that id and no other.
\<close>

fun mutate :: "string \<Rightarrow> (task \<Rightarrow> task) \<Rightarrow> task list \<Rightarrow> task list" where
  "mutate i f [] = []"
| "mutate i f (t # ts) = (if task_id t = i then f t # ts else t # mutate i f ts)"

text \<open>\<^verbatim>\<open>state.tasks.splice(index, 1)\<close> at the index \<^verbatim>\<open>findIndex\<close> gave.\<close>

fun splice_task :: "string \<Rightarrow> task list \<Rightarrow> task list" where
  "splice_task i [] = []"
| "splice_task i (t # ts) = (if task_id t = i then ts else t # splice_task i ts)"

text \<open>
  \<^verbatim>\<open>startTimer(id)\<close>, lines 424-443. \<open>now1\<close> and \<open>now2\<close> are its two readings of
  \<^verbatim>\<open>Date.now()\<close>, \<open>h\<close> the handle \<^verbatim>\<open>setInterval\<close> returns.
\<close>

definition startTimer :: "string \<Rightarrow> int \<Rightarrow> int \<Rightarrow> nat \<Rightarrow> state \<Rightarrow> state" where
  "startTimer i now1 now2 h s =
     (case find_task i s of
        None \<Rightarrow> s
      | Some t \<Rightarrow>
          if isRunning t \<or> isArchived t then s
          else s\<lparr>tasks :=
                   mutate i
                     (\<lambda>t. t\<lparr>isRunning := True, startedAt := Some now1, lastUpdatedMs := now2\<rparr>)
                     (tasks s),
                 timers := AList.update i h (timers s)\<rparr>)"

text \<open>
  \<^verbatim>\<open>stopTimer(id)\<close>, lines 445-463. The guard reads \<open>isRunning\<close> only; the duration is
  \<^verbatim>\<open>Date.now() - task.startedAt\<close>, whatever \<open>startedAt\<close> holds.
\<close>

definition stopTimer :: "string \<Rightarrow> int \<Rightarrow> int \<Rightarrow> state \<Rightarrow> state" where
  "stopTimer i now1 now2 s =
     (case find_task i s of
        None \<Rightarrow> s
      | Some t \<Rightarrow>
          if \<not> isRunning t then s
          else
            (let duration = jsSub (Fin now1) (toNumber (startedAt t))
             in s\<lparr>tasks :=
                      mutate i
                        (\<lambda>t. t\<lparr>isRunning := False, startedAt := None, lastUpdatedMs := now2\<rparr>)
                        (tasks s),
                    timers := AList.delete i (timers s),
                    pendingLog := Some (task_id t, duration)\<rparr>))"

text \<open>
  \<^verbatim>\<open>finalizeLog(comment)\<close>, lines 465-485. \<open>today\<close> is what
  \<^verbatim>\<open>new Date().toLocaleDateString()\<close> returns and \<open>now\<close> what \<^verbatim>\<open>Date.now()\<close> reads. The
  separator of \<open>lastLog\<close> is a middle dot (code unit B7) between two spaces.
\<close>

definition finalizeLog :: "string \<Rightarrow> string \<Rightarrow> int \<Rightarrow> state \<Rightarrow> state" where
  "finalizeLog cmt today now s =
     (case pendingLog s of
        None \<Rightarrow> s
      | Some (i, d) \<Rightarrow>
          (case find_task i s of
             None \<Rightarrow> s
           | Some t \<Rightarrow>
               (let entry = \<lparr>date = today, duration = formatDuration d, comment = cmt,
                             timestamp = now\<rparr>
                in s\<lparr>tasks :=
                         mutate i
                           (\<lambda>t. t\<lparr>elapsedMs := jsAdd (elapsedMs t) d,
                                   logs := entry # logs t,
                                   lastLog := Some (date entry @ [CHR '' '', CHR 0xB7, CHR '' '']
                                                     @ duration entry),
                                   lastUpdatedMs := timestamp entry,
                                   lastChecked := Some (timestamp entry)\<rparr>)
                           (tasks s),
                       pendingLog := None\<rparr>)))"

text \<open>
  The submit handler of the log form, lines 239-250: the confirm operation. It trims the
  text of the comment field; without a pending session it returns at once; with an empty
  comment it writes the warning "You must enter a log comment to keep this time." and
  returns; otherwise it calls \<^verbatim>\<open>finalizeLog\<close> and closes the dialog.
\<close>

datatype submit_outcome = NoPendingLog | CommentRequired | DialogClosed

definition logFormSubmit :: "string \<Rightarrow> string \<Rightarrow> int \<Rightarrow> state \<Rightarrow> submit_outcome \<times> state" where
  "logFormSubmit input today now s =
     (let cmt = trim input
      in if pendingLog s = None then (NoPendingLog, s)
         else if cmt = [] then (CommentRequired, s)
         else (DialogClosed, finalizeLog cmt today now s))"

text \<open>The click handler of the discard button, lines 252-264: the discard operation.\<close>

definition discardLog :: "int \<Rightarrow> state \<Rightarrow> state" where
  "discardLog now s =
     (case pendingLog s of
        None \<Rightarrow> s
      | Some (i, d) \<Rightarrow>
          (case find_task i s of
             Some t \<Rightarrow>
               s\<lparr>tasks :=
                    mutate i
                      (\<lambda>t. t\<lparr>isRunning := False, lastLog := Some ''Discarded session'',
                              lastUpdatedMs := now\<rparr>)
                      (tasks s)\<rparr>
           | None \<Rightarrow> s)
          \<lparr>pendingLog := None\<rparr>)"

text \<open>\<^verbatim>\<open>markChecked(id)\<close>, lines 487-496; \<^verbatim>\<open>x || 0\<close> of a number is \<open>x\<close>.\<close>

definition markChecked :: "string \<Rightarrow> int \<Rightarrow> state \<Rightarrow> state" where
  "markChecked i now s =
     (case find_task i s of
        None \<Rightarrow> s
      | Some t \<Rightarrow>
          s\<lparr>tasks :=
               mutate i
                 (\<lambda>t. t\<lparr>lastChecked := Some now, lastUpdatedMs := max (lastUpdatedMs t) now\<rparr>)
                 (tasks s)\<rparr>)"

text \<open>\<^verbatim>\<open>archiveTask(id)\<close>, lines 498-510.\<close>

definition archiveTask :: "string \<Rightarrow> int \<Rightarrow> state \<Rightarrow> state" where
  "archiveTask i now s =
     (case find_task i s of
        None \<Rightarrow> s
      | Some t \<Rightarrow>
          if isRunning t then s
          else s\<lparr>tasks :=
                   mutate i (\<lambda>t. t\<lparr>isArchived := \<not> isArchived t, lastUpdatedMs := now\<rparr>)
                     (tasks s)\<rparr>)"

text \<open>\<^verbatim>\<open>deleteTask(id)\<close>, lines 512-533; \<open>confirmDelete\<close> is the answer to its question.\<close>

definition deleteTask :: "string \<Rightarrow> bool \<Rightarrow> state \<Rightarrow> state" where
  "deleteTask i confirmDelete s =
     (case find_task i s of
        None \<Rightarrow> s
      | Some t \<Rightarrow>
          if isRunning t then s
          else if \<not> confirmDelete then s
          else s\<lparr>timers := AList.delete i (timers s), tasks := splice_task i (tasks s)\<rparr>)"

text \<open>
  Whatever is done to the engine is a sequence of calls of its handlers, each with its
  arguments and what it reads from the clock and the page. \<open>AddTask\<close> is the task form's
  submit handler with the normalized task it puts at the front.
\<close>

datatype event =
    StartTimer string int int nat
  | StopTimer string int int
  | LogFormSubmit string string int
  | DiscardLog int
  | MarkChecked string int
  | ArchiveTask string int
  | DeleteTask string bool
  | AddTask task

fun apply_event :: "event \<Rightarrow> state \<Rightarrow> state" where
  "apply_event (StartTimer i now1 now2 h) s = startTimer i now1 now2 h s"
| "apply_event (StopTimer i now1 now2) s = stopTimer i now1 now2 s"
| "apply_event (LogFormSubmit input day now) s = snd (logFormSubmit input day now s)"
| "apply_event (DiscardLog now) s = discardLog now s"
| "apply_event (MarkChecked i now) s = markChecked i now s"
| "apply_event (ArchiveTask i now) s = archiveTask i now s"
| "apply_event (DeleteTask i confirmDelete) s = deleteTask i confirmDelete s"
| "apply_event (AddTask t) s = s\<lparr>tasks := t # tasks s\<rparr>"

text \<open>
  The task form passes its new task through the normalizer, lines 202-216, so the task
  it adds is not running and has no \<open>startedAt\<close>.
\<close>

fun normalized_new :: "event \<Rightarrow> bool" where
  "normalized_new (AddTask t) = (\<not> isRunning t \<and> startedAt t = None)"
| "normalized_new e = True"

text \<open>
  The states the engine reaches. The first state is the one \<^verbatim>\<open>bootstrapApp\<close> builds: no
  timers, no pending session, and tasks as the normalizer returns them (\<open>isRunning\<close>
  false, \<open>startedAt\<close> deleted). Every event takes a reached state to a reached state,
  whatever its readings of the clock are: \<^verbatim>\<open>Date.now()\<close> is the wall clock, which can be
  set back between two readings.
\<close>

inductive reachable :: "state \<Rightarrow> bool" where
  booted:
    "timers s = [] \<Longrightarrow> pendingLog s = None \<Longrightarrow>
     \<forall>t \<in> set (tasks s). \<not> isRunning t \<and> startedAt t = None \<Longrightarrow>
     reachable s"
| stepped:
    "reachable s \<Longrightarrow> normalized_new e \<Longrightarrow> reachable (apply_event e s)"

text \<open>
  The durations an event commits to the task with id \<open>i\<close>: the pending duration, when the
  event is a confirm with a comment and the pending session is of that task; and the
  durations committed along a sequence of events, in their order.
\<close>

fun committed :: "string \<Rightarrow> event \<Rightarrow> state \<Rightarrow> jsnum list" where
  "committed i (LogFormSubmit input day now) s =
     (case pendingLog s of
        Some (j, d) \<Rightarrow> if j = i \<and> trim input \<noteq> [] \<and> find_task i s \<noteq> None then [d] else []
      | None \<Rightarrow> [])"
| "committed i e s = []"

fun commits :: "string \<Rightarrow> event list \<Rightarrow> state \<Rightarrow> jsnum list" where
  "commits i [] s = []"
| "commits i (e # es) s = committed i e s @ commits i es (apply_event e s)"

text \<open>An event keeps the task with id \<open>i\<close> when it neither deletes it nor adds another
  task with the same id in front of it.\<close>

fun keeps :: "string \<Rightarrow> event \<Rightarrow> bool" where
  "keeps i (DeleteTask j confirmDelete) = (j \<noteq> i)"
| "keeps i (AddTask t) = (task_id t \<noteq> i)"
| "keeps i e = True"

section \<open>The CSV exporter\<close>

text \<open>
  \<^verbatim>\<open>exportTask(task)\<close>, lines 583-603, up to the text handed to the \<^verbatim>\<open>Blob\<close>, on a task as
  it is stored: the normalizer keeps whatever array \<^verbatim>\<open>logs\<close> holds (line 64), so an entry
  can be any value. Without logs the exporter raises the notice "No logs to export for this
  item yet." and returns; an exception leaves it without a text.
\<close>

datatype export_error = EmptyLogs | Thrown js_error

text \<open>\<^verbatim>\<open>xs.join(sep)\<close>.\<close>

fun join :: "string \<Rightarrow> string list \<Rightarrow> string" where
  "join sep [] = []"
| "join sep [x] = x"
| "join sep (x # y # ys) = x @ sep @ join sep (y # ys)"

text \<open>A value between double quotes (code unit 22), each double quote in it doubled.\<close>

definition quoted :: "string \<Rightarrow> string" where
  "quoted v =
     [CHR 0x22] @ concat (map (\<lambda>c. if c = CHR 0x22 then [c, c] else [c]) v) @ [CHR 0x22]"

text \<open>
  \<^verbatim>\<open>`"${value.replace(/"/g, '""')}"`\<close>, line 591: only a string has a \<^verbatim>\<open>replace\<close> to call. On
  \<^verbatim>\<open>undefined\<close> and \<^verbatim>\<open>null\<close> reading the property throws, on any other value the property is
  not a function and calling it throws.
\<close>

definition quoteValue :: "jsval option \<Rightarrow> js_error + string" where
  "quoteValue v = (case v of Some (JStr s) \<Rightarrow> Inr (quoted s) | _ \<Rightarrow> Inl TypeError)"

text \<open>
  \<^verbatim>\<open>log.date\<close>, \<^verbatim>\<open>log.duration\<close> and \<^verbatim>\<open>log.comment\<close>: reading a property of \<^verbatim>\<open>null\<close> throws;
  an object gives the property or \<^verbatim>\<open>undefined\<close>; a boolean, a number, a string and an
  array have none of these three.
\<close>

definition logField :: "jsval \<Rightarrow> string \<Rightarrow> js_error + jsval option" where
  "logField l k =
     (case l of JNull \<Rightarrow> Inl TypeError | JObj ps \<Rightarrow> Inr (map_of ps k) | _ \<Rightarrow> Inr None)"

text \<open>\<^verbatim>\<open>xs.map(f)\<close> for an \<open>f\<close> that may throw: the first exception ends the map.\<close>

fun collect :: "(js_error + 'a) list \<Rightarrow> js_error + 'a list" where
  "collect [] = Inr []"
| "collect (x # xs) =
     (case x of
        Inl e \<Rightarrow> Inl e
      | Inr v \<Rightarrow> (case collect xs of Inl e \<Rightarrow> Inl e | Inr vs \<Rightarrow> Inr (v # vs)))"

text \<open>\<^verbatim>\<open>[task.name, log.date, log.duration, log.comment]\<close>, line 589.\<close>

definition rowOf :: "jsobj \<Rightarrow> jsval \<Rightarrow> js_error + jsval option list" where
  "rowOf task l =
     (case collect [logField l ''date'', logField l ''duration'', logField l ''comment''] of
        Inl e \<Rightarrow> Inl e
      | Inr vs \<Rightarrow> Inr (map_of task ''name'' # vs))"

text \<open>\<^verbatim>\<open>row.map((value) => ...).join(',')\<close>, line 591.\<close>

definition csvLine :: "jsval option list \<Rightarrow> js_error + string" where
  "csvLine row =
     (case collect (map quoteValue row) of Inl e \<Rightarrow> Inl e | Inr vs \<Rightarrow> Inr (join '','' vs))"

text \<open>
  The guard \<^verbatim>\<open>!task.logs.length\<close>, line 584, reads the length of whatever \<^verbatim>\<open>logs\<close> is: of
  \<^verbatim>\<open>undefined\<close> and \<^verbatim>\<open>null\<close> the reading throws; a boolean and a number have no length, which
  counts as none; a string that is not empty and an object with a truthy \<^verbatim>\<open>length\<close> pass
  the guard and have no \<^verbatim>\<open>map\<close> to call.
\<close>

definition exportTask :: "jsobj \<Rightarrow> export_error + string" where
  "exportTask task =
     (case map_of task ''logs'' of
        None \<Rightarrow> Inl (Thrown TypeError)
      | Some JNull \<Rightarrow> Inl (Thrown TypeError)
      | Some (JBool b) \<Rightarrow> Inl EmptyLogs
      | Some (JNum n) \<Rightarrow> Inl EmptyLogs
      | Some (JStr s) \<Rightarrow> if s = [] then Inl EmptyLogs else Inl (Thrown TypeError)
      | Some (JObj ps) \<Rightarrow>
          if truthy (map_of ps ''length'') then Inl (Thrown TypeError) else Inl EmptyLogs
      | Some (JArr ls) \<Rightarrow>
          if ls = [] then Inl EmptyLogs
          else
            (let headers = [Some (JStr ''Name''), Some (JStr ''Date''),
                            Some (JStr ''Time Spent''), Some (JStr ''Comment'')]
             in case collect (map (rowOf task) ls) of
                  Inl e \<Rightarrow> Inl (Thrown e)
                | Inr rows \<Rightarrow>
                    (case collect (map csvLine (headers # rows)) of
                       Inl e \<Rightarrow> Inl (Thrown e)
                     | Inr lines \<Rightarrow> Inr (join [CHR 0x0A] lines))))"

text \<open>
  A stored log entry \<open>l\<close> is well formed, with the strings of \<open>e\<close>, when it is an object
  whose \<^verbatim>\<open>date\<close>, \<^verbatim>\<open>duration\<close> and \<^verbatim>\<open>comment\<close> are these strings. The entries \<^verbatim>\<open>finalizeLog\<close>
  builds are of this kind.
\<close>

definition holdsEntry :: "jsval \<Rightarrow> log_entry \<Rightarrow> bool" where
  "holdsEntry l e =
     (case l of
        JObj ps \<Rightarrow>
          map_of ps ''date'' = Some (JStr (date e)) \<and>
          map_of ps ''duration'' = Some (JStr (duration e)) \<and>
          map_of ps ''comment'' = Some (JStr (comment e))
      | _ \<Rightarrow> False)"

section \<open>The trimmed, lower-cased form of a string\<close>

text \<open>
  What it is for a key to be the trimmed, lower-cased form of a string, written without
  the functions of the program: the white space characters and the capital letters with
  their small letters are listed one by one (in the Latin-1 range), and \<open>k\<close> is the
  trimmed, lower-cased form of \<open>s\<close> when \<open>s\<close> is white space, then a middle part that
  neither starts nor ends with white space, then white space, and \<open>k\<close> is that middle part
  with each capital letter replaced by its small letter.
\<close>

definition whiteSpace :: "char list" where
  "whiteSpace = [CHR 0x09, CHR 0x0A, CHR 0x0B, CHR 0x0C, CHR 0x0D, CHR 0x20, CHR 0xA0]"

definition capitals :: string where
  "capitals = ''ABCDEFGHIJKLMNOPQRSTUVWXYZ'' @
     [CHR 0xC0, CHR 0xC1, CHR 0xC2, CHR 0xC3, CHR 0xC4, CHR 0xC5, CHR 0xC6, CHR 0xC7,
      CHR 0xC8, CHR 0xC9, CHR 0xCA, CHR 0xCB, CHR 0xCC, CHR 0xCD, CHR 0xCE, CHR 0xCF,
      CHR 0xD0, CHR 0xD1, CHR 0xD2, CHR 0xD3, CHR 0xD4, CHR 0xD5, CHR 0xD6,
      CHR 0xD8, CHR 0xD9, CHR 0xDA, CHR 0xDB, CHR 0xDC, CHR 0xDD, CHR 0xDE]"

definition smalls :: string where
  "smalls = ''abcdefghijklmnopqrstuvwxyz'' @
     [CHR 0xE0, CHR 0xE1, CHR 0xE2, CHR 0xE3, CHR 0xE4, CHR 0xE5, CHR 0xE6, CHR 0xE7,
      CHR 0xE8, CHR 0xE9, CHR 0xEA, CHR 0xEB, CHR 0xEC, CHR 0xED, CHR 0xEE, CHR 0xEF,
      CHR 0xF0, CHR 0xF1, CHR 0xF2, CHR 0xF3, CHR 0xF4, CHR 0xF5, CHR 0xF6,
      CHR 0xF8, CHR 0xF9, CHR 0xFA, CHR 0xFB, CHR 0xFC, CHR 0xFD, CHR 0xFE]"

definition smallOf :: "char \<Rightarrow> char" where
  "smallOf c = (case map_of (zip capitals smalls) c of Some d \<Rightarrow> d | None \<Rightarrow> c)"

definition trimmedLowerCased :: "string \<Rightarrow> string \<Rightarrow> bool" where
  "trimmedLowerCased s k \<longleftrightarrow>
     (\<exists>pre mid post.
        s = pre @ mid @ post \<and> set pre \<subseteq> set whiteSpace \<and> set post \<subseteq> set whiteSpace \<and>
        (mid = [] \<or> (hd mid \<notin> set whiteSpace \<and> last mid \<notin> set whiteSpace)) \<and>
        k = map smallOf mid)"

section \<open>What the engine keeps true\<close>

text \<open>
  A running task carries the reading of the clock at which it was started, and the
  duration of a pending session is not \<^verbatim>\<open>NaN\<close>.
\<close>

definition started :: "task \<Rightarrow> bool" where
  "started t = (if isRunning t then startedAt t \<noteq> None else True)"

definition pending_ok :: "(string \<times> jsnum) option \<Rightarrow> bool" where
  "pending_ok p = (case p of None \<Rightarrow> True | Some (i, d) \<Rightarrow> d \<noteq> NaN)"

definition engine_inv :: "state \<Rightarrow> bool" where
  "engine_inv s = (list_all started (tasks s) \<and> pending_ok (pendingLog s))"

section \<open>Concrete inputs\<close>

text \<open>A task as the form and the normalizer create it, and the state that holds it alone.\<close>

definition sampleTask :: task where
  "sampleTask =
     \<lparr>task_id = ''t1'', task_type = ''task'', name = ''Task A'', reference = ''Task #001'',
      description = [], isCritical = False, elapsedMs = Fin 0, logs = [], isRunning = False,
      startedAt = None, isArchived = False, lastLog = None, createdAt = 0,
      lastUpdatedMs = 0, lastChecked = None\<rparr>"

definition sampleState :: state where
  "sampleState = \<lparr>tasks = [sampleTask], timers = [], pendingLog = None\<rparr>"

text \<open>The task is started at 10 and stopped at 25: a session of 15 ms is pending.\<close>

definition pendingState :: state where
  "pendingState = stopTimer ''t1'' 25 26 (startTimer ''t1'' 10 11 1 sampleState)"

text \<open>Then the task is deleted while its session is still pending.\<close>

definition strandedState :: state where
  "strandedState = deleteTask ''t1'' True pendingState"

text \<open>A stored record that claims to be running, with fields of the wrong shape.\<close>

definition savedRunning :: jsobj where
  "savedRunning =
     [(''id'', JStr ''t1''), (''name'', JStr ''  Task A ''), (''isRunning'', JBool True),
      (''startedAt'', JNum (Fin 5)), (''elapsedMs'', JStr ''12''), (''logs'', JNull)]"

text \<open>A stored record whose name is a number.\<close>

definition savedNumberName :: jsobj where
  "savedNumberName =
     [(''id'', JStr ''t1''), (''name'', JNum (Fin 123)), (''isRunning'', JBool True),
      (''startedAt'', JNum (Fin 5))]"

text \<open>Three tasks of a snapshot, the first one archived.\<close>

definition threeTasks :: "jsobj list" where
  "threeTasks =
     [[(''name'', JStr ''Alpha''), (''reference'', JStr ''PRJ-1''), (''isArchived'', JBool True)],
      [(''name'', JStr ''alpha ''), (''reference'', JStr ''PRJ-2'')],
      [(''name'', JStr ''Beta''), (''reference'', JStr '' prj-2'')]]"

text \<open>
  The stored task of the export example: one log entry, with double quotes in its
  comment. And the same task without a log entry, and with an entry whose date is a number.
\<close>

definition loggedTask :: jsobj where
  "loggedTask =
     [(''id'', JStr ''t1''), (''name'', JStr ''Task A''), (''elapsedMs'', JNum (Fin 600000)),
      (''logs'',
       JArr [JObj [(''date'', JStr ''1/1/2024''), (''duration'', JStr ''00:10:00''),
                   (''comment'', JStr (''Said '' @ [CHR 0x22] @ ''hi'' @ [CHR 0x22])),
                   (''timestamp'', JNum (Fin 600))]])]"

definition unloggedTask :: jsobj where
  "unloggedTask =
     [(''id'', JStr ''t1''), (''name'', JStr ''Task A''), (''elapsedMs'', JNum (Fin 0)),
      (''logs'', JArr [])]"

definition numberDateTask :: jsobj where
  "numberDateTask =
     [(''id'', JStr ''t1''), (''name'', JStr ''Task A''), (''elapsedMs'', JNum (Fin 0)),
      (''logs'', JArr [JObj [(''date'', JNum (Fin 5))]])]"

text \<open>
  Two sessions on the task, of 15 ms and of 60 ms, each started, stopped and confirmed,
  with a review in between; and the same with the longer session first.
\<close>

definition shortThenLong :: "event list" where
  "shortThenLong =
     [StartTimer ''t1'' 10 11 1, StopTimer ''t1'' 25 26, LogFormSubmit ''fixed it'' ''1/1/2024'' 40,
      MarkChecked ''t1'' 50,
      StartTimer ''t1'' 100 100 2, StopTimer ''t1'' 160 161,
      LogFormSubmit ''wrote tests'' ''1/1/2024'' 170]"

definition longThenShort :: "event list" where
  "longThenShort =
     [StartTimer ''t1'' 10 11 1, StopTimer ''t1'' 70 71, LogFormSubmit ''wrote tests'' ''1/1/2024'' 80,
      MarkChecked ''t1'' 90,
      StartTimer ''t1'' 100 100 2, StopTimer ''t1'' 115 116,
      LogFormSubmit ''fixed it'' ''1/1/2024'' 120]"

text \<open>
  A stored record whose \<open>elapsedMs\<close> is \<open>2 ^ 53\<close>; the task the normalizer makes of it, in
  the store; and two sessions on it, of 1 ms and of 2 ms, in both orders.
\<close>

definition savedLongRun :: jsobj where
  "savedLongRun =
     [(''id'', JStr ''t1''), (''name'', JStr ''Task A''),
      (''elapsedMs'', JNum (Fin 9007199254740992))]"

definition longRunState :: state where
  "longRunState =
     \<lparr>tasks = [sampleTask\<lparr>elapsedMs := Fin 9007199254740992\<rparr>], timers = [],
      pendingLog = None\<rparr>"

definition oneThenTwo :: "event list" where
  "oneThenTwo =
     [StartTimer ''t1'' 10 10 1, StopTimer ''t1'' 11 11, LogFormSubmit ''one'' ''1/1/2024'' 12,
      StartTimer ''t1'' 20 20 2, StopTimer ''t1'' 22 22, LogFormSubmit ''two'' ''1/1/2024'' 23]"

definition twoThenOne :: "event list" where
  "twoThenOne =
     [StartTimer ''t1'' 10 10 1, StopTimer ''t1'' 12 12, LogFormSubmit ''two'' ''1/1/2024'' 13,
      StartTimer ''t1'' 20 20 2, StopTimer ''t1'' 21 21, LogFormSubmit ''one'' ''1/1/2024'' 22]"

text \<open>The task is started at 100; the clock is then set back, and the stop reads 50.\<close>

definition lateStartState :: state where
  "lateStartState = startTimer ''t1'' 100 101 1 sampleState"

section \<open>Auxiliary facts\<close>

subsection \<open>Finding and writing a task\<close>

lemma find_mutate:
  "(\<And>t. task_id (f t) = task_id t) \<Longrightarrow>
   List.find (\<lambda>t. task_id t = i) (mutate i f ts)
     = map_option f (List.find (\<lambda>t. task_id t = i) ts)"
  by (induction ts) auto

lemma find_task_id: "find_task i s = Some t \<Longrightarrow> task_id t = i"
  by (auto simp: find_task_def find_Some_iff)

lemma find_task_mem: "find_task i s = Some t \<Longrightarrow> t \<in> set (tasks s)"
  by (auto simp: find_task_def find_Some_iff)

lemma mutate_map_same: "(\<And>t. g (f t) = g t) \<Longrightarrow> map g (mutate i f ts) = map g ts"
  by (induction ts) auto

lemma mutate_pred:
  "\<forall>t\<in>set ts. P t \<Longrightarrow> (\<And>t. t \<in> set ts \<Longrightarrow> P t \<Longrightarrow> P (f t)) \<Longrightarrow>
   \<forall>t\<in>set (mutate i f ts). P t"
  by (induction ts) auto

lemma splice_subset: "set (splice_task i ts) \<subseteq> set ts"
  by (induction ts) auto

subsection \<open>Rounding\<close>

lemma bitLength_eq: "2 ^ k \<le> n \<Longrightarrow> n < 2 ^ Suc k \<Longrightarrow> bitLength n = Suc k"
proof (induction k arbitrary: n)
  case 0
  then have "n = 1"
    by simp
  then show ?case
    by (simp add: bitLength.simps [of "Suc 0"] bitLength.simps [of 0])
next
  case (Suc k)
  have "2 ^ k \<le> n div 2" "n div 2 < 2 ^ Suc k"
    using Suc.prems by auto
  then have "bitLength (n div 2) = Suc k"
    by (rule Suc.IH)
  moreover have "n \<noteq> 0"
    using Suc.prems by auto
  ultimately show ?case
    by (simp add: bitLength.simps [of n])
qed

lemma toDouble_exact: "\<bar>n\<bar> < 2 ^ 53 \<Longrightarrow> toDouble n = Fin n"
  by (auto simp: toDouble_def roundToDouble_def Let_def)

lemma toDouble_not_NaN: "toDouble n \<noteq> NaN"
  by (simp add: toDouble_def Let_def)

lemma toDouble_not_negative: "0 \<le> n \<Longrightarrow> \<not> negative (toDouble n)"
  by (simp add: toDouble_def Let_def)

text \<open>
  From \<open>2 ^ 53\<close> to \<open>2 ^ 54\<close> the doubles are the even integers: \<open>2 ^ 53 + 1\<close> is half way
  between two of them and goes to \<open>2 ^ 53\<close>, whose significand is even, and \<open>2 ^ 53 + 3\<close>
  goes to \<open>2 ^ 53 + 4\<close>.
\<close>

lemma toDouble_above_2_53:
  "toDouble 9007199254740993 = Fin 9007199254740992"
  "toDouble 9007199254740994 = Fin 9007199254740994"
  "toDouble 9007199254740995 = Fin 9007199254740996"
  using bitLength_eq [of 53 9007199254740993] bitLength_eq [of 53 9007199254740994]
    bitLength_eq [of 53 9007199254740995]
  by (simp_all add: toDouble_def roundToDouble_def)

text \<open>The largest double is \<open>2 ^ 1024 - 2 ^ 971\<close>; half a step beyond it is infinite.\<close>

lemma toDouble_overflow: "toDouble (2 ^ 1024 - 2 ^ 970) = PosInf"
  using bitLength_eq [of 1023 "2 ^ 1024 - 2 ^ 970"] by (simp add: toDouble_def roundToDouble_def)

lemma jsSub_Fin: "jsSub (Fin a) (Fin b) = toDouble (a - b)"
  by (simp add: jsSub_def)

subsection \<open>The invariant of the engine\<close>

lemma started_iff: "started t \<longleftrightarrow> (isRunning t \<longrightarrow> (\<exists>a. startedAt t = Some a))"
  by (auto simp: started_def)

lemma pending_ok_iff: "pending_ok p \<longleftrightarrow> (\<forall>i d. p = Some (i, d) \<longrightarrow> d \<noteq> NaN)"
  by (auto simp: pending_ok_def split: option.splits)

lemma engine_inv_iff:
  "engine_inv s \<longleftrightarrow>
     (\<forall>t\<in>set (tasks s). started t) \<and> (\<forall>i d. pendingLog s = Some (i, d) \<longrightarrow> d \<noteq> NaN)"
  by (simp add: engine_inv_def list_all_iff pending_ok_iff)

lemma inv_mutate:
  assumes "engine_inv s" "\<And>t. started t \<Longrightarrow> started (f t)"
  shows "engine_inv (s\<lparr>tasks := mutate i f (tasks s)\<rparr>)"
proof -
  have "\<forall>t\<in>set (tasks s). started t"
    using assms(1) by (simp add: engine_inv_iff)
  then have "\<forall>t\<in>set (mutate i f (tasks s)). started t"
    by (rule mutate_pred) (use assms(2) in blast)
  then show ?thesis
    using assms(1) by (simp add: engine_inv_iff)
qed

lemma inv_start:
  assumes "engine_inv s"
  shows "engine_inv (startTimer i a b h s)"
proof -
  let ?f = "\<lambda>t. t\<lparr>isRunning := True, startedAt := Some a, lastUpdatedMs := b\<rparr>"
  have "engine_inv (s\<lparr>tasks := mutate i ?f (tasks s)\<rparr>)"
    using assms by (rule inv_mutate) (simp add: started_iff)
  then have "engine_inv (s\<lparr>tasks := mutate i ?f (tasks s), timers := AList.update i h (timers s)\<rparr>)"
    by (simp add: engine_inv_iff)
  then show ?thesis
    using assms by (simp add: startTimer_def split: option.splits)
qed

lemma inv_stop:
  assumes "engine_inv s"
  shows "engine_inv (stopTimer i a b s)"
proof (cases "find_task i s")
  case None
  then show ?thesis
    using assms by (simp add: stopTimer_def)
next
  case (Some t)
  show ?thesis
  proof (cases "isRunning t")
    case False
    then show ?thesis
      using Some assms by (simp add: stopTimer_def)
  next
    case True
    let ?f = "\<lambda>t. t\<lparr>isRunning := False, startedAt := None, lastUpdatedMs := b\<rparr>"
    have "t \<in> set (tasks s)"
      using Some by (rule find_task_mem)
    then obtain a0 where a0: "startedAt t = Some a0"
      using assms True by (auto simp: engine_inv_iff started_iff)
    have d: "jsSub (Fin a) (toNumber (startedAt t)) = toDouble (a - a0)"
      by (simp add: a0 jsSub_Fin toNumber_def)
    have "engine_inv (s\<lparr>tasks := mutate i ?f (tasks s)\<rparr>)"
      using assms by (rule inv_mutate) (simp add: started_iff)
    then have "engine_inv (s\<lparr>tasks := mutate i ?f (tasks s),
        timers := AList.delete i (timers s), pendingLog := Some (task_id t, toDouble (a - a0))\<rparr>)"
      by (simp add: engine_inv_iff toDouble_not_NaN)
    then show ?thesis
      using Some True by (simp add: stopTimer_def d)
  qed
qed

lemma inv_finalize:
  assumes "engine_inv s"
  shows "engine_inv (finalizeLog cmt day a s)"
proof -
  have "engine_inv (s\<lparr>tasks := mutate i f (tasks s), pendingLog := None\<rparr>)"
    if "\<And>t. isRunning (f t) = isRunning t \<and> startedAt (f t) = startedAt t" for i f
  proof -
    have "engine_inv (s\<lparr>tasks := mutate i f (tasks s)\<rparr>)"
      using assms by (rule inv_mutate) (simp add: started_iff that)
    then show ?thesis
      by (simp add: engine_inv_iff)
  qed
  then show ?thesis
    using assms by (simp add: finalizeLog_def Let_def split: option.splits prod.splits)
qed

lemma inv_submit:
  assumes "engine_inv s"
  shows "engine_inv (snd (logFormSubmit txt day a s))"
  using inv_finalize [OF assms] assms
  by (simp add: logFormSubmit_def Let_def)

lemma inv_discard:
  assumes "engine_inv s"
  shows "engine_inv (discardLog a s)"
proof -
  let ?f = "\<lambda>t. t\<lparr>isRunning := False, lastLog := Some ''Discarded session'', lastUpdatedMs := a\<rparr>"
  have "engine_inv (s\<lparr>tasks := mutate i ?f (tasks s)\<rparr>)" for i
    using assms by (rule inv_mutate) (simp add: started_iff)
  then show ?thesis
    using assms by (auto simp: discardLog_def engine_inv_iff split: option.splits prod.splits)
qed

lemma inv_check:
  assumes "engine_inv s"
  shows "engine_inv (markChecked i a s)"
proof -
  let ?f = "\<lambda>t. t\<lparr>lastChecked := Some a, lastUpdatedMs := max (lastUpdatedMs t) a\<rparr>"
  have "engine_inv (s\<lparr>tasks := mutate i ?f (tasks s)\<rparr>)"
    using assms by (rule inv_mutate) (simp add: started_iff)
  then show ?thesis
    using assms by (simp add: markChecked_def split: option.splits)
qed

lemma inv_archive:
  assumes "engine_inv s"
  shows "engine_inv (archiveTask i a s)"
proof -
  let ?f = "\<lambda>t. t\<lparr>isArchived := \<not> isArchived t, lastUpdatedMs := a\<rparr>"
  have "engine_inv (s\<lparr>tasks := mutate i ?f (tasks s)\<rparr>)"
    using assms by (rule inv_mutate) (simp add: started_iff)
  then show ?thesis
    using assms by (simp add: archiveTask_def split: option.splits)
qed

lemma inv_delete:
  assumes "engine_inv s"
  shows "engine_inv (deleteTask i ok s)"
  using assms splice_subset [of i "tasks s"]
  by (auto simp: deleteTask_def engine_inv_iff split: option.splits)

lemma inv_event:
  assumes "engine_inv s" "normalized_new e"
  shows "engine_inv (apply_event e s)"
proof (cases e)
  case (StartTimer i a b h)
  then show ?thesis
    using assms by (simp add: inv_start)
next
  case (StopTimer i a b)
  then show ?thesis
    using assms by (simp add: inv_stop)
next
  case (LogFormSubmit input day a)
  then show ?thesis
    using assms by (simp add: inv_submit)
next
  case (DiscardLog a)
  then show ?thesis
    using assms by (simp add: inv_discard)
next
  case (MarkChecked i a)
  then show ?thesis
    using assms by (simp add: inv_check)
next
  case (ArchiveTask i a)
  then show ?thesis
    using assms by (simp add: inv_archive)
next
  case (DeleteTask i ok)
  then show ?thesis
    using assms by (simp add: inv_delete)
next
  case (AddTask t)
  then show ?thesis
    using assms by (simp add: engine_inv_iff started_iff)
qed

lemma reachable_inv: "reachable s \<Longrightarrow> engine_inv s"
proof (induction rule: reachable.induct)
  case (booted s)
  then show ?case
    by (simp add: engine_inv_iff started_iff)
next
  case (stepped s e)
  then show ?case
    by (simp only: inv_event)
qed

subsection \<open>The concrete states\<close>

lemma pendingState_eq:
  "pendingState =
     \<lparr>tasks = [sampleTask\<lparr>lastUpdatedMs := 26\<rparr>], timers = [],
      pendingLog = Some (''t1'', Fin 15)\<rparr>"
  by (simp add: pendingState_def sampleState_def sampleTask_def startTimer_def stopTimer_def
      find_task_def jsSub_Fin toNumber_def toDouble_exact)

lemma strandedState_eq:
  "strandedState = \<lparr>tasks = [], timers = [], pendingLog = Some (''t1'', Fin 15)\<rparr>"
  by (simp add: strandedState_def pendingState_eq deleteTask_def find_task_def sampleTask_def)

lemma reachable_sampleState: "reachable sampleState"
  by (rule reachable.booted) (simp_all add: sampleState_def sampleTask_def)

lemma reachable_startedState: "reachable (startTimer ''t1'' 10 11 1 sampleState)"
  using reachable.stepped [OF reachable_sampleState, of "StartTimer ''t1'' 10 11 1"]
  by simp

lemma reachable_pendingState: "reachable pendingState"
  using reachable.stepped [OF reachable_startedState, of "StopTimer ''t1'' 25 26"]
  by (simp add: pendingState_def)

lemma reachable_strandedState: "reachable strandedState"
  using reachable.stepped [OF reachable_pendingState, of "DeleteTask ''t1'' True"]
  by (simp add: strandedState_def)

lemma reachable_lateStartState: "reachable lateStartState"
  using reachable.stepped [OF reachable_sampleState, of "StartTimer ''t1'' 100 101 1"]
  by (simp add: lateStartState_def)

lemma reachable_longRunState: "reachable longRunState"
  by (rule reachable.booted) (simp_all add: longRunState_def sampleTask_def)

text \<open>
  The guard of \<^verbatim>\<open>stopTimer\<close> does not look at \<open>startedAt\<close>: on a task that is marked running
  and has none, the duration is \<^verbatim>\<open>NaN\<close>. No state the engine reaches holds such a task
  (\<open>reachable_inv\<close>).
\<close>

lemma stopTimer_unguarded:
  "pendingLog
     (stopTimer ''t1'' 25 26
        \<lparr>tasks = [sampleTask\<lparr>isRunning := True\<rparr>], timers = [], pendingLog = None\<rparr>)
     = Some (''t1'', NaN)"
  by (simp add: stopTimer_def find_task_def sampleTask_def jsSub_def toNumber_def)

subsection \<open>The normalizer's helpers\<close>

lemma dropWhile_trim: "dropWhile isWhiteSpace (trim s) = trim s"
proof -
  let ?a = "dropWhile isWhiteSpace s"
  let ?b = "dropWhile isWhiteSpace (rev ?a)"
  show ?thesis
  proof (cases "?b = []")
    case True
    then have "trim s = []"
      by (simp only: trim_def rev.simps)
    then show ?thesis
      by simp
  next
    case False
    have "rev ?a = takeWhile isWhiteSpace (rev ?a) @ ?b"
      by simp
    then have "rev (rev ?a) = rev (takeWhile isWhiteSpace (rev ?a) @ ?b)"
      by (rule arg_cong)
    then have a: "?a = rev ?b @ rev (takeWhile isWhiteSpace (rev ?a))"
      by (simp only: rev_rev_ident rev_append)
    have nb: "rev ?b \<noteq> []"
      using False by simp
    have "hd ?a = hd (rev ?b)"
      by (subst a) (simp only: hd_append2 [OF nb])
    moreover have "?a \<noteq> []"
      using a nb by (metis append_is_Nil_conv)
    then have "\<not> isWhiteSpace (hd ?a)"
      by (rule hd_dropWhile)
    ultimately have "\<not> isWhiteSpace (hd (rev ?b))"
      by simp
    then show ?thesis
      by (simp add: trim_def dropWhile_eq_self_iff)
  qed
qed

lemma trim_trim: "trim (trim s) = trim s"
proof -
  have "trim (trim s) = rev (dropWhile isWhiteSpace (rev (trim s)))"
    by (simp add: trim_def [of "trim s"] dropWhile_trim)
  also have "\<dots> = trim s"
    by (simp add: trim_def)
  finally show ?thesis .
qed

lemma trim_untitled: "trim ''Untitled item'' = ''Untitled item''"
  by (simp add: trim_def isWhiteSpace_def)

lemma trimmedName_again:
  "trimmedName v = Inr nm \<Longrightarrow> trimmedName (Some (JStr nm)) = Inr nm"
  by (auto simp: trimmedName_def trim_trim trim_untitled
      split: option.splits jsval.splits if_splits)

lemma finiteOr_again:
  "isFinite (Some d) \<Longrightarrow> finiteOr (Some (finiteOr v d)) d' = finiteOr v d"
  by (auto simp: finiteOr_def split: option.splits)

lemma isFinite_finiteOr: "isFinite (Some d) \<Longrightarrow> isFinite (Some (finiteOr v d))"
  by (auto simp: finiteOr_def split: option.splits)

lemma arrayOr_again: "arrayOr (Some (arrayOr v (JArr []))) d' = arrayOr v (JArr [])"
  by (auto simp: arrayOr_def isArray_def split: option.splits)

lemma orElse_again: "orElse (Some (orElse v (JStr []))) (JStr []) = orElse v (JStr [])"
  by (auto simp: orElse_def truthy_def split: option.splits)

lemma nullishOr_again: "nullishOr (Some (nullishOr v JNull)) JNull = nullishOr v JNull"
  by (auto simp: nullishOr_def split: option.splits jsval.splits)

lemma assign_same: "\<forall>(k, v) \<in> set kvs. map_of obj k = Some v \<Longrightarrow> assign kvs obj = obj"
  unfolding assign_def
  by (induction kvs arbitrary: obj) (auto simp: AList.update_triv)

lemma map_of_assign_Cons:
  "map_of (assign ((k, v) # kvs) obj) = map_of (assign kvs (AList.update k v obj))"
  by (simp add: assign_def)

lemma map_of_assign_Nil: "map_of (assign [] obj) = map_of obj"
  by (simp add: assign_def)

lemma normalizeTask_again:
  assumes a: "normalizeTask now task = Inr u"
  shows "normalizeTask now' u = Inr u"
proof -
  from a obtain nm where nm: "trimmedName (map_of task ''name'') = Inr nm"
    by (auto simp: normalizeTask_def Let_def split: sum.splits)
  define created where "created = finiteOr (map_of task ''createdAt'') (JNum (Fin now))"
  define kvs where "kvs =
    [(''name'', JStr nm),
     (''description'', orElse (map_of task ''description'') (JStr [])),
     (''logs'', arrayOr (map_of task ''logs'') (JArr [])),
     (''elapsedMs'', finiteOr (map_of task ''elapsedMs'') (JNum (Fin 0))),
     (''isRunning'', JBool False),
     (''isArchived'', JBool (truthy (map_of task ''isArchived''))),
     (''createdAt'', created),
     (''lastUpdatedMs'', finiteOr (map_of task ''lastUpdatedMs'') created),
     (''lastChecked'', nullishOr (map_of task ''lastChecked'') JNull)]"
  have u: "u = AList.delete ''startedAt'' (assign kvs task)"
    using a nm by (simp add: normalizeTask_def Let_def kvs_def created_def)
  have look: "\<forall>(k, v) \<in> set kvs. map_of u k = Some v"
    unfolding u kvs_def
    by (simp add: AList.delete_conv' map_of_assign_Cons map_of_assign_Nil AList.update_conv')
  have f: "map_of u ''name'' = Some (JStr nm)"
    "map_of u ''description'' = Some (orElse (map_of task ''description'') (JStr []))"
    "map_of u ''logs'' = Some (arrayOr (map_of task ''logs'') (JArr []))"
    "map_of u ''elapsedMs'' = Some (finiteOr (map_of task ''elapsedMs'') (JNum (Fin 0)))"
    "map_of u ''isArchived'' = Some (JBool (truthy (map_of task ''isArchived'')))"
    "map_of u ''createdAt'' = Some created"
    "map_of u ''lastUpdatedMs'' = Some (finiteOr (map_of task ''lastUpdatedMs'') created)"
    "map_of u ''lastChecked'' = Some (nullishOr (map_of task ''lastChecked'') JNull)"
    using look by (simp_all add: kvs_def)
  have fin: "isFinite (Some (JNum (Fin n)))" for n
    by (simp add: isFinite_def)
  have fin_created: "isFinite (Some created)"
    unfolding created_def by (rule isFinite_finiteOr) (rule fin)
  have again: "finiteOr (Some created) (JNum (Fin now')) = created"
    unfolding created_def by (rule finiteOr_again) (rule fin)
  have "normalizeTask now' u = Inr (AList.delete ''startedAt'' (assign kvs u))"
    unfolding normalizeTask_def Let_def
    by (simp add: f trimmedName_again [OF nm] again finiteOr_again fin fin_created
        arrayOr_again orElse_again nullishOr_again kvs_def truthy_def)
  also have "assign kvs u = u"
    by (rule assign_same [OF look])
  also have "AList.delete ''startedAt'' u = u"
    unfolding u by (simp add: AList.delete_idem)
  finally show ?thesis .
qed

subsection \<open>Evaluation\<close>

lemma formatDuration_15: "formatDuration (Fin 15) = ''00:00:00''"
  by code_simp

subsection \<open>Counting keys\<close>

lemma countOf_countKey:
  "countOf (countKey k m) k' = (if k \<noteq> [] \<and> k' = k then countOf m k + 1 else countOf m k')"
  by (simp add: countOf_def countKey_def AList.update_conv')

lemma countOf_fold:
  "countOf (fold (\<lambda>t. countKey (f t)) ts m) k
     = countOf m k + (if k = [] then 0 else length (filter (\<lambda>t. f t = k) ts))"
  by (induction ts arbitrary: m) (auto simp: countOf_countKey)

lemma distinct_countKey: "distinct (map fst m) \<Longrightarrow> distinct (map fst (countKey k m))"
  by (simp add: countKey_def AList.distinct_update)

lemma distinct_fold: "distinct (map fst m) \<Longrightarrow> distinct (map fst (fold (\<lambda>t. countKey (f t)) ts m))"
  by (induction ts arbitrary: m) (auto simp: distinct_countKey)

lemma repeatedKeys_iff:
  assumes "distinct (map fst m)"
  shows "k \<in> repeatedKeys m \<longleftrightarrow> 1 < countOf m k"
proof -
  have "k \<in> repeatedKeys m \<longleftrightarrow> (\<exists>c. (k, c) \<in> set m \<and> 1 < c)"
    by (force simp: repeatedKeys_def)
  also have "\<dots> \<longleftrightarrow> (\<exists>c. map_of m k = Some c \<and> 1 < c)"
    using assms by simp
  also have "\<dots> \<longleftrightarrow> 1 < countOf m k"
    by (auto simp: countOf_def split: option.splits)
  finally show ?thesis .
qed

lemma countOf_Nil: "countOf [] k = 0"
  by (simp add: countOf_def)

lemma fold_pair:
  "fold (\<lambda>t (a, b). (F t a, G t b)) ts (a, b) = (fold F ts a, fold G ts b)"
  by (induction ts arbitrary: a b) auto

lemma repeated_fold:
  "k \<in> repeatedKeys (fold (\<lambda>t. countKey (f t)) ts []) \<longleftrightarrow>
     k \<noteq> [] \<and> 2 \<le> length (filter (\<lambda>t. f t = k) ts)"
proof -
  have "distinct (map fst (fold (\<lambda>t. countKey (f t)) ts []))"
    by (rule distinct_fold) simp
  then show ?thesis
    by (auto simp: repeatedKeys_iff countOf_fold countOf_Nil)
qed

lemma keys_threeTasks:
  "map nameKey threeTasks = [''alpha'', ''alpha'', ''beta'']"
  "map referenceKey threeTasks = [''prj-1'', ''prj-2'', ''prj-2'']"
  by code_simp+

subsection \<open>The keys of the program are the trimmed, lower-cased forms\<close>

lemma isWhiteSpace_iff: "\<forall>c. isWhiteSpace c = (c \<in> set whiteSpace)"
  by code_simp

lemma lowerChar_smallOf: "\<forall>c. lowerChar c = smallOf c"
  by code_simp

lemma toLowerCase_smallOf: "toLowerCase s = map smallOf s"
  by (simp add: toLowerCase_def lowerChar_smallOf)

lemma trim_middle:
  assumes "\<forall>c\<in>set pre. isWhiteSpace c" "\<forall>c\<in>set post. isWhiteSpace c"
    and "mid = [] \<or> (\<not> isWhiteSpace (hd mid) \<and> \<not> isWhiteSpace (last mid))"
  shows "trim (pre @ mid @ post) = mid"
proof (cases "mid = []")
  case True
  have "\<forall>c\<in>set (pre @ post). isWhiteSpace c"
    using assms(1,2) by auto
  then have d: "dropWhile isWhiteSpace (pre @ post) = []"
    by (simp only: dropWhile_eq_Nil_conv)
  show ?thesis
    unfolding True trim_def by (simp only: append_Nil d rev.simps dropWhile.simps)
next
  case False
  then have h: "\<not> isWhiteSpace (hd mid)" and l: "\<not> isWhiteSpace (last mid)"
    using assms(3) by auto
  have "dropWhile isWhiteSpace (pre @ mid @ post) = dropWhile isWhiteSpace (mid @ post)"
    using assms(1) by (simp add: dropWhile_append2)
  also have "\<dots> = mid @ post"
    using False h by (cases mid) auto
  finally have a: "dropWhile isWhiteSpace (pre @ mid @ post) = mid @ post" .
  have "dropWhile isWhiteSpace (rev post @ rev mid) = dropWhile isWhiteSpace (rev mid)"
    by (rule dropWhile_append2) (use assms(2) in auto)
  then have "dropWhile isWhiteSpace (rev (mid @ post)) = dropWhile isWhiteSpace (rev mid)"
    by simp
  also have "\<dots> = rev mid"
    using False l by (cases "rev mid") (auto simp: last_rev [symmetric] simp del: last_rev)
  finally show ?thesis
    by (simp add: trim_def a)
qed

lemma trim_split:
  "\<exists>pre post. s = pre @ trim s @ post \<and> (\<forall>c\<in>set pre. isWhiteSpace c) \<and>
     (\<forall>c\<in>set post. isWhiteSpace c) \<and>
     (trim s = [] \<or> (\<not> isWhiteSpace (hd (trim s)) \<and> \<not> isWhiteSpace (last (trim s))))"
proof -
  let ?a = "dropWhile isWhiteSpace s"
  let ?b = "dropWhile isWhiteSpace (rev ?a)"
  let ?pre = "takeWhile isWhiteSpace s"
  let ?post = "rev (takeWhile isWhiteSpace (rev ?a))"
  have t: "trim s = rev ?b"
    by (simp add: trim_def)
  have "rev ?a = takeWhile isWhiteSpace (rev ?a) @ ?b"
    by simp
  then have "rev (rev ?a) = rev (takeWhile isWhiteSpace (rev ?a) @ ?b)"
    by (rule arg_cong)
  then have a: "?a = trim s @ ?post"
    by (simp only: rev_rev_ident rev_append t)
  have "s = ?pre @ ?a"
    by simp
  then have s: "s = ?pre @ trim s @ ?post"
    using a by simp
  have pre: "\<forall>c\<in>set ?pre. isWhiteSpace c"
    by (auto dest: set_takeWhileD)
  have post: "\<forall>c\<in>set ?post. isWhiteSpace c"
    by (auto dest: set_takeWhileD)
  have ends: "\<not> isWhiteSpace (hd (trim s)) \<and> \<not> isWhiteSpace (last (trim s))" if n: "trim s \<noteq> []"
  proof
    have "dropWhile isWhiteSpace (trim s) = trim s"
      by (rule dropWhile_trim)
    then show "\<not> isWhiteSpace (hd (trim s))"
      using n by (metis hd_dropWhile)
    have "?b \<noteq> []"
      using n t by simp
    then have "\<not> isWhiteSpace (hd ?b)"
      by (rule hd_dropWhile)
    then show "\<not> isWhiteSpace (last (trim s))"
      using n t by (simp add: last_rev)
  qed
  show ?thesis
    using s pre post ends by blast
qed

lemma trimmedLowerCased_iff: "trimmedLowerCased s k \<longleftrightarrow> k = toLowerCase (trim s)"
proof
  assume "trimmedLowerCased s k"
  then obtain pre mid post where p: "s = pre @ mid @ post"
      "\<forall>c\<in>set pre. isWhiteSpace c" "\<forall>c\<in>set post. isWhiteSpace c"
      "mid = [] \<or> (\<not> isWhiteSpace (hd mid) \<and> \<not> isWhiteSpace (last mid))"
      "k = map smallOf mid"
    unfolding trimmedLowerCased_def by (auto simp: isWhiteSpace_iff subset_iff)
  have "trim s = mid"
    unfolding p(1) using p(2,3,4) by (rule trim_middle)
  then show "k = toLowerCase (trim s)"
    using p(5) by (simp add: toLowerCase_smallOf)
next
  assume k: "k = toLowerCase (trim s)"
  from trim_split [of s] obtain pre post where p: "s = pre @ trim s @ post"
      "\<forall>c\<in>set pre. isWhiteSpace c" "\<forall>c\<in>set post. isWhiteSpace c"
      "trim s = [] \<or> (\<not> isWhiteSpace (hd (trim s)) \<and> \<not> isWhiteSpace (last (trim s)))"
    by blast
  have "set pre \<subseteq> set whiteSpace" "set post \<subseteq> set whiteSpace"
    using p(2,3) by (auto simp: isWhiteSpace_iff)
  moreover have "trim s = [] \<or> (hd (trim s) \<notin> set whiteSpace \<and> last (trim s) \<notin> set whiteSpace)"
    using p(4) by (simp add: isWhiteSpace_iff)
  ultimately show "trimmedLowerCased s k"
    unfolding trimmedLowerCased_def using p(1) k toLowerCase_smallOf by blast
qed

lemma nameKey_iff:
  "k \<noteq> [] \<Longrightarrow>
   nameKey t = k \<longleftrightarrow> (\<exists>s. map_of t ''name'' = Some (JStr s) \<and> trimmedLowerCased s k)"
  by (auto simp: nameKey_def trimmedLowerCased_iff split: option.splits jsval.splits)

lemma referenceKey_iff:
  "k \<noteq> [] \<Longrightarrow>
   referenceKey t = k \<longleftrightarrow> (\<exists>s. map_of t ''reference'' = Some (JStr s) \<and> trimmedLowerCased s k)"
  by (auto simp: referenceKey_def trimmedLowerCased_iff split: option.splits jsval.splits)

lemma forms_threeTasks:
  "toLowerCase (trim ''Alpha'') = ''alpha''"
  "toLowerCase (trim ''alpha '') = ''alpha''"
  "toLowerCase (trim ''Beta'') = ''beta''"
  "toLowerCase (trim ''PRJ-1'') = ''prj-1''"
  "toLowerCase (trim ''PRJ-2'') = ''prj-2''"
  "toLowerCase (trim '' prj-2'') = ''prj-2''"
  by code_simp+

subsection \<open>Joining rows\<close>

lemma join_Cons: "join sep (x # xs) = x @ concat (map (\<lambda>y. sep @ y) xs)"
  by (induction xs arbitrary: x) auto

lemma collect_Inr: "collect (map (\<lambda>x. Inr (f x)) xs) = Inr (map f xs)"
  by (induction xs) auto

lemma rowOf_holdsEntry:
  "holdsEntry l e \<Longrightarrow>
   rowOf task l
     = Inr [map_of task ''name'', Some (JStr (date e)), Some (JStr (duration e)),
            Some (JStr (comment e))]"
  by (auto simp: holdsEntry_def rowOf_def logField_def split: jsval.splits)

lemma rows_holdsEntry:
  "list_all2 holdsEntry ls es \<Longrightarrow>
   collect (map (rowOf task) ls)
     = Inr (map (\<lambda>e. [map_of task ''name'', Some (JStr (date e)), Some (JStr (duration e)),
                       Some (JStr (comment e))]) es)"
  by (induction rule: list_all2_induct) (auto simp: rowOf_holdsEntry)

lemma csvLine_strings:
  "csvLine [Some (JStr a), Some (JStr b), Some (JStr c), Some (JStr d)]
     = Inr (quoted a @ '','' @ quoted b @ '','' @ quoted c @ '','' @ quoted d)"
  by (simp add: csvLine_def quoteValue_def)

text \<open>
  An entry with a field that is not a string, which the normalizer keeps, makes the
  exporter throw.
\<close>

lemma exportTask_number_date: "exportTask numberDateTask = Inl (Thrown TypeError)"
  by (simp add: exportTask_def numberDateTask_def rowOf_def logField_def csvLine_def
      quoteValue_def)

subsection \<open>One event after another\<close>

lemma find_finalizeLog:
  "pendingLog s = Some (i, d) \<Longrightarrow> find_task i s = Some t \<Longrightarrow>
   find_task i (finalizeLog cmt day now s)
     = Some (t\<lparr>elapsedMs := jsAdd (elapsedMs t) d,
               logs := \<lparr>date = day, duration = formatDuration d, comment = cmt,
                        timestamp = now\<rparr> # logs t,
               lastLog := Some (day @ [CHR '' '', CHR 0xB7, CHR '' ''] @ formatDuration d),
               lastUpdatedMs := now, lastChecked := Some now\<rparr>)"
  by (simp add: finalizeLog_def find_task_def find_mutate Let_def)

lemma find_mutate_any:
  assumes "\<And>t. task_id (f t) = task_id t"
  shows "List.find (\<lambda>t. task_id t = i) (mutate j f ts)
     = (if j = i then map_option f (List.find (\<lambda>t. task_id t = i) ts)
        else List.find (\<lambda>t. task_id t = i) ts)"
  using assms by (induction ts) auto

lemma find_splice_other:
  "j \<noteq> i \<Longrightarrow>
   List.find (\<lambda>t. task_id t = i) (splice_task j ts) = List.find (\<lambda>t. task_id t = i) ts"
  by (induction ts) auto

lemma event_effect:
  assumes "find_task i s = Some t" "keeps i e"
  shows "\<exists>t'. find_task i (apply_event e s) = Some t' \<and>
              elapsedMs t' = foldl jsAdd (elapsedMs t) (committed i e s)"
proof (cases e)
  case (StartTimer j a b h)
  then show ?thesis
    using assms by (auto simp: startTimer_def find_task_def find_mutate_any split: option.splits)
next
  case (StopTimer j a b)
  then show ?thesis
    using assms
    by (auto simp: stopTimer_def find_task_def find_mutate_any Let_def split: option.splits)
next
  case (LogFormSubmit input day now)
  then show ?thesis
    using assms
    by (auto simp: logFormSubmit_def finalizeLog_def find_task_def find_mutate_any Let_def
        split: option.splits)
next
  case (DiscardLog now)
  then show ?thesis
    using assms by (auto simp: discardLog_def find_task_def find_mutate_any split: option.splits)
next
  case (MarkChecked j now)
  then show ?thesis
    using assms by (auto simp: markChecked_def find_task_def find_mutate_any split: option.splits)
next
  case (ArchiveTask j now)
  then show ?thesis
    using assms by (auto simp: archiveTask_def find_task_def find_mutate_any split: option.splits)
next
  case (DeleteTask j ok)
  then show ?thesis
    using assms by (auto simp: deleteTask_def find_task_def find_splice_other split: option.splits)
next
  case (AddTask u)
  then show ?thesis
    using assms by (auto simp: find_task_def)
qed

lemma trace_effect:
  assumes "find_task i s = Some t" "list_all (keeps i) es"
  shows "\<exists>t'. find_task i (fold apply_event es s) = Some t' \<and>
              elapsedMs t' = foldl jsAdd (elapsedMs t) (commits i es s)"
  using assms
proof (induction es arbitrary: s t)
  case Nil
  then show ?case by simp
next
  case (Cons e es)
  from Cons.prems obtain t1 where t1: "find_task i (apply_event e s) = Some t1"
    "elapsedMs t1 = foldl jsAdd (elapsedMs t) (committed i e s)"
    using event_effect [of i s t e] by auto
  from Cons.IH [OF t1(1)] Cons.prems(2) t1(2) show ?case
    by auto
qed

lemma foldl_jsAdd_Fin:
  "\<bar>e\<bar> + sum_list (map abs ds) < 2 ^ 53 \<Longrightarrow>
   foldl jsAdd (Fin e) (map Fin ds) = Fin (e + sum_list ds)"
proof (induction ds arbitrary: e)
  case Nil
  then show ?case
    by simp
next
  case (Cons d ds)
  have nn: "0 \<le> sum_list (map abs ds)"
    by (rule sum_list_nonneg) auto
  have a: "\<bar>e + d\<bar> < 2 ^ 53"
    using Cons.prems nn by simp
  have b: "\<bar>e + d\<bar> + sum_list (map abs ds) < 2 ^ 53"
    using Cons.prems by simp
  show ?case
    using Cons.IH [OF b] by (simp add: toDouble_exact [OF a] add.assoc)
qed

lemma sum_list_mset: "mset ds' = mset ds \<Longrightarrow> sum_list ds' = (sum_list ds :: int)"
  by (metis sum_mset_sum_list)

lemma sum_list_abs_mset:
  "mset ds' = mset ds \<Longrightarrow> sum_list (map abs ds') = sum_list (map abs (ds :: int list))"
  by (metis mset_map sum_mset_sum_list)

lemma commits_shortThenLong: "commits ''t1'' shortThenLong sampleState = map Fin [15, 60]"
  by (simp add: shortThenLong_def sampleState_def sampleTask_def startTimer_def stopTimer_def
      logFormSubmit_def finalizeLog_def markChecked_def find_task_def trim_def isWhiteSpace_def
      jsSub_Fin toNumber_def toDouble_exact)

lemma commits_longThenShort: "commits ''t1'' longThenShort sampleState = map Fin [60, 15]"
  by (simp add: longThenShort_def sampleState_def sampleTask_def startTimer_def stopTimer_def
      logFormSubmit_def finalizeLog_def markChecked_def find_task_def trim_def isWhiteSpace_def
      jsSub_Fin toNumber_def toDouble_exact)

lemma commits_oneThenTwo: "commits ''t1'' oneThenTwo longRunState = map Fin [1, 2]"
  by (simp add: oneThenTwo_def longRunState_def sampleTask_def startTimer_def stopTimer_def
      logFormSubmit_def finalizeLog_def find_task_def trim_def isWhiteSpace_def
      jsSub_Fin toNumber_def toDouble_exact)

lemma commits_twoThenOne: "commits ''t1'' twoThenOne longRunState = map Fin [2, 1]"
  by (simp add: twoThenOne_def longRunState_def sampleTask_def startTimer_def stopTimer_def
      logFormSubmit_def finalizeLog_def find_task_def trim_def isWhiteSpace_def
      jsSub_Fin toNumber_def toDouble_exact)

subsection \<open>What the normalizer returns\<close>

lemma normalizeTask_returns:
  "(\<exists>u. normalizeTask now task = Inr u) \<longleftrightarrow>
     map_of task ''name'' = None \<or> map_of task ''name'' = Some JNull \<or>
     (\<exists>s. map_of task ''name'' = Some (JStr s))"
  by (auto simp: normalizeTask_def trimmedName_def Let_def split: option.splits jsval.splits)

lemma normalizeTask_fields:
  assumes "normalizeTask now task = Inr u"
  shows "map_of u ''isRunning'' = Some (JBool False)"
    and "map_of u ''startedAt'' = None"
    and "\<exists>nm. trimmedName (map_of task ''name'') = Inr nm \<and> map_of u ''name'' = Some (JStr nm)"
    and "map_of u ''logs'' = Some (arrayOr (map_of task ''logs'') (JArr []))"
    and "map_of u ''elapsedMs'' = Some (finiteOr (map_of task ''elapsedMs'') (JNum (Fin 0)))"
proof -
  from assms obtain nm where nm: "trimmedName (map_of task ''name'') = Inr nm"
    by (auto simp: normalizeTask_def Let_def split: sum.splits)
  have u: "u = AList.delete ''startedAt''
      (assign
        [(''name'', JStr nm),
         (''description'', orElse (map_of task ''description'') (JStr [])),
         (''logs'', arrayOr (map_of task ''logs'') (JArr [])),
         (''elapsedMs'', finiteOr (map_of task ''elapsedMs'') (JNum (Fin 0))),
         (''isRunning'', JBool False),
         (''isArchived'', JBool (truthy (map_of task ''isArchived''))),
         (''createdAt'', finiteOr (map_of task ''createdAt'') (JNum (Fin now))),
         (''lastUpdatedMs'', finiteOr (map_of task ''lastUpdatedMs'')
            (finiteOr (map_of task ''createdAt'') (JNum (Fin now)))),
         (''lastChecked'', nullishOr (map_of task ''lastChecked'') JNull)]
        task)"
    using assms nm by (simp add: normalizeTask_def Let_def)
  show "map_of u ''isRunning'' = Some (JBool False)"
    and "map_of u ''startedAt'' = None"
    and "map_of u ''logs'' = Some (arrayOr (map_of task ''logs'') (JArr []))"
    and "map_of u ''elapsedMs'' = Some (finiteOr (map_of task ''elapsedMs'') (JNum (Fin 0)))"
    unfolding u
    by (simp_all add: AList.delete_conv' map_of_assign_Cons map_of_assign_Nil AList.update_conv')
  have "map_of u ''name'' = Some (JStr nm)"
    unfolding u
    by (simp add: AList.delete_conv' map_of_assign_Cons map_of_assign_Nil AList.update_conv')
  with nm show "\<exists>nm. trimmedName (map_of task ''name'') = Inr nm \<and> map_of u ''name'' = Some (JStr nm)"
    by blast
qed

lemma normalizeTask_result:
  assumes "normalizeTask now task = Inr u"
  shows "map_of u ''isRunning'' = Some (JBool False)"
    and "map_of u ''startedAt'' = None"
    and "map_of u ''name'' =
           Some (JStr (case map_of task ''name'' of
                         Some (JStr s) \<Rightarrow> if trim s = [] then ''Untitled item'' else trim s
                       | _ \<Rightarrow> ''Untitled item''))"
    and "map_of u ''logs'' =
           Some (case map_of task ''logs'' of Some (JArr xs) \<Rightarrow> JArr xs | _ \<Rightarrow> JArr [])"
    and "map_of u ''elapsedMs'' =
           Some (case map_of task ''elapsedMs'' of
                   Some (JNum (Fin n)) \<Rightarrow> JNum (Fin n)
                 | _ \<Rightarrow> JNum (Fin 0))"
proof -
  note f = normalizeTask_fields [OF assms]
  show "map_of u ''isRunning'' = Some (JBool False)" "map_of u ''startedAt'' = None"
    by (rule f)+
  from f(3) show "map_of u ''name'' =
           Some (JStr (case map_of task ''name'' of
                         Some (JStr s) \<Rightarrow> if trim s = [] then ''Untitled item'' else trim s
                       | _ \<Rightarrow> ''Untitled item''))"
    by (auto simp: trimmedName_def split: option.splits jsval.splits)
  show "map_of u ''logs'' =
           Some (case map_of task ''logs'' of Some (JArr xs) \<Rightarrow> JArr xs | _ \<Rightarrow> JArr [])"
    unfolding f(4) by (simp add: arrayOr_def isArray_def split: option.splits jsval.splits)
  show "map_of u ''elapsedMs'' =
           Some (case map_of task ''elapsedMs'' of
                   Some (JNum (Fin n)) \<Rightarrow> JNum (Fin n)
                 | _ \<Rightarrow> JNum (Fin 0))"
    unfolding f(5)
    by (simp add: finiteOr_def isFinite_def split: option.splits jsval.splits jsnum.splits)
qed

lemma normalizeFrom_not_running:
  "normalizeFrom clock k ts = Inr us \<Longrightarrow>
   \<forall>u\<in>set us. map_of u ''isRunning'' = Some (JBool False) \<and> map_of u ''startedAt'' = None"
proof (induction ts arbitrary: k us)
  case Nil
  then show ?case by simp
next
  case (Cons t ts)
  then show ?case
    by (auto split: sum.splits dest: normalizeTask_fields(1,2))
qed

lemma bootstrapApp_not_running:
  "bootstrapApp clock existing seed = Inr us \<Longrightarrow>
   \<forall>u\<in>set us. map_of u ''isRunning'' = Some (JBool False) \<and> map_of u ''startedAt'' = None"
  unfolding bootstrapApp_def Let_def by (rule normalizeFrom_not_running)

section \<open>The claims\<close>

text \<open>
  C1, as amended. A confirm adds the pending duration to the \<open>elapsedMs\<close> of the pending
  session's task, as doubles are added: exactly when the two are integers whose
  magnitudes sum to less than \<open>2 ^ 53\<close>. Hence over any sequence of events that keeps a
  task, whatever else is done in between, the task's \<open>elapsedMs\<close> at the end is its
  \<open>elapsedMs\<close> at the start with the durations committed to it added one after the other;
  for a start value \<open>e\<close> and durations \<open>d1, ..., dN\<close> that are integers whose magnitudes
  sum to less than \<open>2 ^ 53\<close> that is exactly \<open>e + d1 + ... + dN\<close>; and two such sequences
  that commit the same durations in different orders end with the same \<open>elapsedMs\<close>.
\<close>

theorem elapsedMs_additive:
  "(pendingLog s = Some (i, d) \<and> find_task i s = Some t \<longrightarrow>
      (\<exists>t'. find_task i (finalizeLog cmt day now s) = Some t' \<and>
            elapsedMs t' = jsAdd (elapsedMs t) d) \<and>
      (\<forall>e n. elapsedMs t = Fin e \<and> d = Fin n \<and> \<bar>e\<bar> + \<bar>n\<bar> < 2 ^ 53 \<longrightarrow>
         map_option elapsedMs (find_task i (finalizeLog cmt day now s)) = Some (Fin (e + n)))) \<and>
   (find_task i s = Some t \<and> list_all (keeps i) es \<longrightarrow>
      (\<exists>t'. find_task i (fold apply_event es s) = Some t' \<and>
            elapsedMs t' = foldl jsAdd (elapsedMs t) (commits i es s)) \<and>
      (\<forall>e ds. elapsedMs t = Fin e \<and> commits i es s = map Fin ds \<and>
         \<bar>e\<bar> + sum_list (map abs ds) < 2 ^ 53 \<longrightarrow>
         map_option elapsedMs (find_task i (fold apply_event es s)) = Some (Fin (e + sum_list ds))) \<and>
      (\<forall>e ds s' u es' ds'.
         elapsedMs t = Fin e \<and> commits i es s = map Fin ds \<and>
         \<bar>e\<bar> + sum_list (map abs ds) < 2 ^ 53 \<and>
         find_task i s' = Some u \<and> list_all (keeps i) es' \<and>
         elapsedMs u = Fin e \<and> commits i es' s' = map Fin ds' \<and> mset ds' = mset ds \<longrightarrow>
         map_option elapsedMs (find_task i (fold apply_event es' s'))
           = map_option elapsedMs (find_task i (fold apply_event es s))))"
proof -
  have sum: "map_option elapsedMs (find_task i (fold apply_event es s)) = Some (Fin (e + sum_list ds))"
    if "find_task i s = Some t" "list_all (keeps i) es" "elapsedMs t = Fin e"
      "commits i es s = map Fin ds" "\<bar>e\<bar> + sum_list (map abs ds) < 2 ^ 53" for s t es e ds
    using trace_effect [OF that(1,2)] that(3,4) by (auto simp: foldl_jsAdd_Fin [OF that(5)])
  have 1: "\<exists>t'. find_task i (finalizeLog cmt day now s) = Some t' \<and>
            elapsedMs t' = jsAdd (elapsedMs t) d"
    if "pendingLog s = Some (i, d)" "find_task i s = Some t"
    using that by (simp add: find_finalizeLog)
  have 2: "map_option elapsedMs (find_task i (finalizeLog cmt day now s)) = Some (Fin (e + n))"
    if "pendingLog s = Some (i, d)" "find_task i s = Some t" "elapsedMs t = Fin e" "d = Fin n"
      "\<bar>e\<bar> + \<bar>n\<bar> < 2 ^ 53" for e n
  proof -
    have "\<bar>e + n\<bar> < 2 ^ 53"
      using that(5) by simp
    then show ?thesis
      using that(1-4) by (simp add: find_finalizeLog toDouble_exact)
  qed
  have 3: "\<exists>t'. find_task i (fold apply_event es s) = Some t' \<and>
            elapsedMs t' = foldl jsAdd (elapsedMs t) (commits i es s)"
    if "find_task i s = Some t" "list_all (keeps i) es"
    using that by (rule trace_effect)
  have 4: "map_option elapsedMs (find_task i (fold apply_event es' s'))
           = map_option elapsedMs (find_task i (fold apply_event es s))"
    if "find_task i s = Some t" "list_all (keeps i) es" "elapsedMs t = Fin e"
      "commits i es s = map Fin ds" "\<bar>e\<bar> + sum_list (map abs ds) < 2 ^ 53"
      "find_task i s' = Some u" "list_all (keeps i) es'"
      "elapsedMs u = Fin e" "commits i es' s' = map Fin ds'" "mset ds' = mset ds"
    for e ds s' u es' ds'
  proof -
    have b: "\<bar>e\<bar> + sum_list (map abs ds') < 2 ^ 53"
      using that(5) by (simp only: sum_list_abs_mset [OF that(10)])
    show ?thesis
      by (simp only: sum [OF that(1-5)] sum [OF that(6-9) b] sum_list_mset [OF that(10)])
  qed
  show ?thesis
    using 1 2 3 4 sum by blast
qed

theorem elapsedMs_additive_witness:
  "map_option elapsedMs (find_task ''t1'' (finalizeLog ''fixed it'' ''1/1/2024'' 40 pendingState))
     = Some (Fin 15) \<and>
   commits ''t1'' shortThenLong sampleState = [Fin 15, Fin 60] \<and>
   commits ''t1'' longThenShort sampleState = [Fin 60, Fin 15] \<and>
   map_option elapsedMs (find_task ''t1'' (fold apply_event shortThenLong sampleState))
     = Some (Fin 75) \<and>
   map_option elapsedMs (find_task ''t1'' (fold apply_event longThenShort sampleState))
     = Some (Fin 75)"
proof -
  have f: "find_task ''t1'' sampleState = Some sampleTask"
    by (simp add: sampleState_def sampleTask_def find_task_def)
  have g: "find_task ''t1'' pendingState = Some (sampleTask\<lparr>lastUpdatedMs := 26\<rparr>)"
    by (simp add: pendingState_eq find_task_def sampleTask_def)
  have p: "pendingLog pendingState = Some (''t1'', Fin 15)"
    by (simp add: pendingState_eq)
  have e: "elapsedMs sampleTask = Fin 0" "elapsedMs (sampleTask\<lparr>lastUpdatedMs := 26\<rparr>) = Fin 0"
    by (simp_all add: sampleTask_def)
  have k: "list_all (keeps ''t1'') shortThenLong" "list_all (keeps ''t1'') longThenShort"
    by (simp_all add: shortThenLong_def longThenShort_def)
  have m: "mset [60, 15] = mset [15, 60 :: int]"
    by (simp add: add.commute)
  have r: "\<bar>0 :: int\<bar> + \<bar>15\<bar> < 2 ^ 53" "\<bar>0 :: int\<bar> + sum_list (map abs [15, 60]) < 2 ^ 53"
    by simp_all
  note T = elapsedMs_additive [where s = sampleState and i = "''t1''" and t = sampleTask
      and es = shortThenLong]
  have A: "map_option elapsedMs
      (find_task ''t1'' (finalizeLog ''fixed it'' ''1/1/2024'' 40 pendingState)) = Some (Fin (0 + 15))"
    using elapsedMs_additive [where s = pendingState and i = "''t1''" and d = "Fin 15"
        and t = "sampleTask\<lparr>lastUpdatedMs := 26\<rparr>" and es = "[]"] p g e(2) r(1)
    by blast
  have B: "map_option elapsedMs (find_task ''t1'' (fold apply_event shortThenLong sampleState))
      = Some (Fin (0 + sum_list [15, 60]))"
    using T f k(1) e(1) commits_shortThenLong r(2) by blast
  have C: "map_option elapsedMs (find_task ''t1'' (fold apply_event longThenShort sampleState))
      = map_option elapsedMs (find_task ''t1'' (fold apply_event shortThenLong sampleState))"
    using T f k e(1) commits_shortThenLong commits_longThenShort m r(2) by blast
  show ?thesis
    using A B C commits_shortThenLong commits_longThenShort by simp
qed

text \<open>
  C1 as stated fails from \<open>2 ^ 53\<close> on, a value of \<open>elapsedMs\<close> that the normalizer keeps
  and with which the task is in the store the engine starts from. Two sessions, of 1 ms
  and of 2 ms, are committed to the task: in this order its \<open>elapsedMs\<close> ends at
  \<open>2 ^ 53 + 2\<close>, in the other order at \<open>2 ^ 53 + 4\<close>, and in neither at the exact sum
  \<open>2 ^ 53 + 3\<close>.
\<close>

theorem elapsedMs_rounded:
  "(\<exists>u. normalizeTask 0 savedLongRun = Inr u \<and>
        map_of u ''elapsedMs'' = Some (JNum (Fin 9007199254740992))) \<and>
   reachable longRunState \<and>
   map_option elapsedMs (find_task ''t1'' longRunState) = Some (Fin 9007199254740992) \<and>
   commits ''t1'' oneThenTwo longRunState = [Fin 1, Fin 2] \<and>
   commits ''t1'' twoThenOne longRunState = [Fin 2, Fin 1] \<and>
   map_option elapsedMs (find_task ''t1'' (fold apply_event oneThenTwo longRunState))
     = Some (Fin 9007199254740994) \<and>
   map_option elapsedMs (find_task ''t1'' (fold apply_event twoThenOne longRunState))
     = Some (Fin 9007199254740996)"
proof -
  have n: "\<exists>u. normalizeTask 0 savedLongRun = Inr u \<and>
      map_of u ''elapsedMs'' = Some (JNum (Fin 9007199254740992))"
    by (simp add: normalizeTask_def savedLongRun_def trimmedName_def trim_def isWhiteSpace_def
        finiteOr_def isFinite_def arrayOr_def isArray_def orElse_def truthy_def nullishOr_def
        assign_def Let_def)
  have f: "find_task ''t1'' longRunState = Some (sampleTask\<lparr>elapsedMs := Fin 9007199254740992\<rparr>)"
    by (simp add: longRunState_def sampleTask_def find_task_def)
  have k: "list_all (keeps ''t1'') oneThenTwo" "list_all (keeps ''t1'') twoThenOne"
    by (simp_all add: oneThenTwo_def twoThenOne_def)
  have a: "map_option elapsedMs (find_task ''t1'' (fold apply_event oneThenTwo longRunState))
      = Some (Fin 9007199254740994)"
    using trace_effect [OF f k(1)] by (auto simp: commits_oneThenTwo toDouble_above_2_53)
  have b: "map_option elapsedMs (find_task ''t1'' (fold apply_event twoThenOne longRunState))
      = Some (Fin 9007199254740996)"
    using trace_effect [OF f k(2)] by (auto simp: commits_twoThenOne toDouble_above_2_53)
  show ?thesis
    using n reachable_longRunState f a b commits_oneThenTwo commits_twoThenOne by simp
qed

text \<open>
  C2, as amended. With a session pending, confirming with an empty or blank comment is
  refused (comment required) and returns the state unchanged, so \<open>elapsedMs\<close>, \<open>logs\<close> and
  the pending session are as before. With a session pending for a task that exists,
  confirming with a comment that is not blank puts an entry with the trimmed comment at
  the front of the task's logs and clears the pending session.
\<close>

theorem logFormSubmit_effect:
  "(pendingLog s \<noteq> None \<and> trim txt = [] \<longrightarrow> logFormSubmit txt day now s = (CommentRequired, s)) \<and>
   (pendingLog s = Some (i, d) \<and> find_task i s = Some t \<and> trim txt \<noteq> [] \<longrightarrow>
      fst (logFormSubmit txt day now s) = DialogClosed \<and>
      (\<exists>t'. find_task i (snd (logFormSubmit txt day now s)) = Some t' \<and>
            logs t' = \<lparr>date = day, duration = formatDuration d, comment = trim txt,
                       timestamp = now\<rparr> # logs t) \<and>
      pendingLog (snd (logFormSubmit txt day now s)) = None)"
  by (auto simp: logFormSubmit_def finalizeLog_def find_task_def find_mutate Let_def)

theorem logFormSubmit_effect_witness:
  "logFormSubmit ''  '' ''1/1/2024'' 40 pendingState = (CommentRequired, pendingState) \<and>
   fst (logFormSubmit '' fixed it '' ''1/1/2024'' 40 pendingState) = DialogClosed \<and>
   (\<exists>t'. find_task ''t1'' (snd (logFormSubmit '' fixed it '' ''1/1/2024'' 40 pendingState)) = Some t' \<and>
         logs t' = [\<lparr>date = ''1/1/2024'', duration = ''00:00:00'', comment = ''fixed it'',
                     timestamp = 40\<rparr>]) \<and>
   pendingLog (snd (logFormSubmit '' fixed it '' ''1/1/2024'' 40 pendingState)) = None"
  using logFormSubmit_effect [of pendingState "''  ''" "''1/1/2024''" 40 "''t1''" "Fin 15"
      "sampleTask\<lparr>lastUpdatedMs := 26\<rparr>"]
    logFormSubmit_effect [of pendingState "'' fixed it ''" "''1/1/2024''" 40 "''t1''" "Fin 15"
      "sampleTask\<lparr>lastUpdatedMs := 26\<rparr>"]
  by (simp add: pendingState_eq find_task_def sampleTask_def trim_def isWhiteSpace_def
      formatDuration_15)

text \<open>
  C2 as stated fails in a state the engine reaches: the task is deleted while its session
  is pending, and a confirm with a comment then neither adds a log entry nor clears the
  pending session.
\<close>

theorem logFormSubmit_pending_kept:
  "reachable strandedState \<and>
   pendingLog strandedState = Some (''t1'', Fin 15) \<and>
   trim ''fixed it'' = ''fixed it'' \<and>
   tasks (snd (logFormSubmit ''fixed it'' ''1/1/2024'' 40 strandedState)) = [] \<and>
   pendingLog (snd (logFormSubmit ''fixed it'' ''1/1/2024'' 40 strandedState))
     = Some (''t1'', Fin 15)"
  by (simp add: reachable_strandedState)
    (simp add: strandedState_eq logFormSubmit_def finalizeLog_def find_task_def trim_def
      isWhiteSpace_def)

text \<open>
  C3. Where the normalizer returns, the task it returns has \<open>isRunning\<close> false and no
  \<open>startedAt\<close>, the default name for a missing or blank name, the empty list for logs
  that are missing or not an array and zero for an \<open>elapsedMs\<close> that is not a finite
  number (\<open>normalizeTask_result\<close>), and so has every task of a load that returns
  (\<open>bootstrapApp_not_running\<close>). But it returns only for a name that is missing, null or
  a string (\<open>normalizeTask_returns\<close>). On a stored record whose name is a number it
  throws, and the load with it:
\<close>

theorem normalizeTask_number_name:
  "normalizeTask now savedNumberName = Inl TypeError \<and>
   bootstrapApp clock (Some [savedNumberName]) seed = Inl TypeError"
  by (simp add: bootstrapApp_def normalizeTask_def savedNumberName_def trimmedName_def)

text \<open>
  C4. With a session pending for a task that exists, the discard handler leaves the
  \<open>elapsedMs\<close> and the \<open>logs\<close> of every task as they were, whatever the pending duration
  is, sets the task's \<open>lastLog\<close> to the marker "Discarded session" and clears the pending
  session.
\<close>

theorem discardLog_effect:
  "pendingLog s = Some (i, d) \<Longrightarrow> find_task i s = Some t \<Longrightarrow>
   find_task i (discardLog now s)
     = Some (t\<lparr>isRunning := False, lastLog := Some ''Discarded session'', lastUpdatedMs := now\<rparr>)
   \<and> map elapsedMs (tasks (discardLog now s)) = map elapsedMs (tasks s)
   \<and> map logs (tasks (discardLog now s)) = map logs (tasks s)
   \<and> pendingLog (discardLog now s) = None"
  by (auto simp: discardLog_def find_task_def find_mutate mutate_map_same)

theorem discardLog_effect_witness:
  "pendingLog pendingState = Some (''t1'', Fin 15) \<and>
   find_task ''t1'' pendingState = Some (sampleTask\<lparr>lastUpdatedMs := 26\<rparr>) \<and>
   find_task ''t1'' (discardLog 30 pendingState)
     = Some (sampleTask\<lparr>lastLog := Some ''Discarded session'', lastUpdatedMs := 30\<rparr>) \<and>
   map elapsedMs (tasks (discardLog 30 pendingState)) = [Fin 0] \<and>
   map logs (tasks (discardLog 30 pendingState)) = [[]] \<and>
   pendingLog (discardLog 30 pendingState) = None"
  using discardLog_effect [of pendingState "''t1''" "Fin 15" "sampleTask\<lparr>lastUpdatedMs := 26\<rparr>" 30]
  by (simp add: pendingState_eq find_task_def sampleTask_def)

text \<open>
  C5, as amended. Without log entries the export fails (nothing to export). For a task
  whose name is a string and whose log entries all are objects with strings for date,
  duration and comment, the text is the header row, whose four fields are double-quoted
  like every other field, followed for each log entry, in the order of the task's logs,
  by a newline and the row of the task's name and the entry's date, duration and comment,
  each between double quotes with its own double quotes doubled, the fields separated by
  commas.
\<close>

theorem exportTask_csv:
  \<open>(map_of task ''logs'' = Some (JArr []) \<longrightarrow> exportTask task = Inl EmptyLogs) \<and>
   (map_of task ''name'' = Some (JStr nm) \<and> map_of task ''logs'' = Some (JArr ls) \<and>
    ls \<noteq> [] \<and> list_all2 holdsEntry ls es \<longrightarrow>
      exportTask task =
        Inr (''"Name","Date","Time Spent","Comment"''
             @ concat (map (\<lambda>e. [CHR 0x0A] @ quoted nm @ '','' @ quoted (date e) @ '',''
                                 @ quoted (duration e) @ '','' @ quoted (comment e))
                         es)))\<close>
proof -
  have \<open>exportTask task =
        Inr (''"Name","Date","Time Spent","Comment"''
             @ concat (map (\<lambda>e. [CHR 0x0A] @ quoted nm @ '','' @ quoted (date e) @ '',''
                                 @ quoted (duration e) @ '','' @ quoted (comment e))
                         es))\<close>
    if n: "map_of task ''name'' = Some (JStr nm)" and l: "map_of task ''logs'' = Some (JArr ls)"
      and ne: "ls \<noteq> []" and h: "list_all2 holdsEntry ls es"
  proof -
    note rows = rows_holdsEntry [OF h, of task, unfolded n]
    show ?thesis
      by (simp add: exportTask_def l ne rows csvLine_strings collect_Inr join_Cons quoted_def
          comp_def)
  qed
  moreover have "exportTask task = Inl EmptyLogs" if "map_of task ''logs'' = Some (JArr [])"
    using that by (simp add: exportTask_def)
  ultimately show ?thesis
    by blast
qed

theorem exportTask_csv_witness:
  \<open>exportTask unloggedTask = Inl EmptyLogs \<and>
   exportTask loggedTask =
     Inr (''"Name","Date","Time Spent","Comment"'' @ [CHR 0x0A]
          @ ''"Task A","1/1/2024","00:10:00","Said ""hi"""'')\<close>
proof -
  let ?e = "\<lparr>date = ''1/1/2024'', duration = ''00:10:00'',
             comment = ''Said '' @ [CHR 0x22] @ ''hi'' @ [CHR 0x22], timestamp = 600\<rparr>"
  let ?l = "JObj [(''date'', JStr ''1/1/2024''), (''duration'', JStr ''00:10:00''),
                  (''comment'', JStr (''Said '' @ [CHR 0x22] @ ''hi'' @ [CHR 0x22])),
                  (''timestamp'', JNum (Fin 600))]"
  have h: "list_all2 holdsEntry [?l] [?e]"
    by (simp add: holdsEntry_def)
  have n: "map_of loggedTask ''name'' = Some (JStr ''Task A'')"
    and l: "map_of loggedTask ''logs'' = Some (JArr [?l])"
    and u: "map_of unloggedTask ''logs'' = Some (JArr [])"
    by (simp_all add: loggedTask_def unloggedTask_def)
  show ?thesis
    using exportTask_csv [of unloggedTask "''Task A''" "[]" "[]"]
      exportTask_csv [of loggedTask "''Task A''" "[?l]" "[?e]"] h n l u
    by (simp add: quoted_def)
qed

text \<open>
  C5 as stated fails on the example of the specification: the first line of the export is
  not the unquoted header.
\<close>

theorem exportTask_header_quoted:
  \<open>exportTask loggedTask \<noteq>
     Inr (''Name,Date,Time Spent,Comment'' @ [CHR 0x0A]
          @ ''"Task A","1/1/2024","00:10:00","Said ""hi"""'')\<close>
  by (simp add: exportTask_def loggedTask_def rowOf_def logField_def csvLine_def quoteValue_def
      quoted_def)

text \<open>
  C6. For every list of tasks, archived or not: a key is in the set of duplicate names
  exactly when it is not empty and at least two tasks have a name, a string, of which it
  is the trimmed, lower-cased form; and a key is in the set of duplicate references
  exactly when it is not empty and at least two tasks have a reference, a string, of
  which it is the trimmed, lower-cased form. The trimmed, lower-cased form is the one of
  section "The trimmed, lower-cased form of a string", not the key the program computes.
\<close>

theorem calculateDuplicates_iff:
  "(k \<in> names (calculateDuplicates ts) \<longleftrightarrow>
      k \<noteq> [] \<and>
      2 \<le> length (filter (\<lambda>t. \<exists>s. map_of t ''name'' = Some (JStr s) \<and> trimmedLowerCased s k) ts)) \<and>
   (k \<in> references (calculateDuplicates ts) \<longleftrightarrow>
      k \<noteq> [] \<and>
      2 \<le> length (filter (\<lambda>t. \<exists>s. map_of t ''reference'' = Some (JStr s) \<and> trimmedLowerCased s k) ts))"
proof (cases "k = []")
  case True
  then show ?thesis
    by (simp add: calculateDuplicates_def fold_pair repeated_fold)
next
  case False
  have "filter (\<lambda>t. nameKey t = k) ts
      = filter (\<lambda>t. \<exists>s. map_of t ''name'' = Some (JStr s) \<and> trimmedLowerCased s k) ts"
    by (rule filter_cong) (simp_all add: nameKey_iff [OF False])
  moreover have "filter (\<lambda>t. referenceKey t = k) ts
      = filter (\<lambda>t. \<exists>s. map_of t ''reference'' = Some (JStr s) \<and> trimmedLowerCased s k) ts"
    by (rule filter_cong) (simp_all add: referenceKey_iff [OF False])
  ultimately show ?thesis
    by (simp add: calculateDuplicates_def fold_pair repeated_fold)
qed

theorem calculateDuplicates_iff_witness:
  "trimmedLowerCased ''Alpha'' ''alpha'' \<and> trimmedLowerCased ''alpha '' ''alpha'' \<and>
   trimmedLowerCased '' prj-2'' ''prj-2'' \<and> trimmedLowerCased ''PRJ-2'' ''prj-2'' \<and>
   \<not> trimmedLowerCased ''PRJ-1'' ''prj-2'' \<and>
   ''alpha'' \<in> names (calculateDuplicates threeTasks) \<and>
   ''beta'' \<notin> names (calculateDuplicates threeTasks) \<and>
   ''prj-2'' \<in> references (calculateDuplicates threeTasks) \<and>
   ''prj-1'' \<notin> references (calculateDuplicates threeTasks) \<and>
   names (calculateDuplicates threeTasks) = {''alpha''} \<and>
   references (calculateDuplicates threeTasks) = {''prj-2''}"
proof -
  note forms = trimmedLowerCased_iff forms_threeTasks
  have n: "k \<in> names (calculateDuplicates threeTasks) \<longleftrightarrow> k = ''alpha''" for k
    using calculateDuplicates_iff [of k threeTasks]
    by (auto simp: threeTasks_def forms)
  have r: "k \<in> references (calculateDuplicates threeTasks) \<longleftrightarrow> k = ''prj-2''" for k
    using calculateDuplicates_iff [of k threeTasks]
    by (auto simp: threeTasks_def forms)
  have "names (calculateDuplicates threeTasks) = {''alpha''}"
    "references (calculateDuplicates threeTasks) = {''prj-2''}"
    using n r by blast+
  then show ?thesis
    by (simp add: forms)
qed

text \<open>
  C7, as amended. In every state the engine reaches, whatever the clock reads: stopping a
  task that has no \<open>startedAt\<close> returns the state unchanged; every running task has a
  \<open>startedAt\<close>; stopping a running task leaves pending the reading at the stop minus its
  \<open>startedAt\<close>, which is not negative when the reading at the stop is not earlier than
  \<open>startedAt\<close>, and is exactly their difference when that is below \<open>2 ^ 53\<close>; and
  whatever session is pending after a stop, its duration is not \<^verbatim>\<open>NaN\<close>.
\<close>

theorem stopTimer_duration:
  assumes "reachable s"
  shows "(\<forall>t. find_task i s = Some t \<and> startedAt t = None \<longrightarrow> stopTimer i now1 now2 s = s) \<and>
         (\<forall>t\<in>set (tasks s). isRunning t \<longrightarrow> startedAt t \<noteq> None) \<and>
         (\<forall>t. find_task i s = Some t \<and> isRunning t \<longrightarrow>
            (\<exists>a. startedAt t = Some a \<and>
                 pendingLog (stopTimer i now1 now2 s) = Some (i, jsSub (Fin now1) (Fin a)) \<and>
                 (a \<le> now1 \<longrightarrow> \<not> negative (jsSub (Fin now1) (Fin a))) \<and>
                 (a \<le> now1 \<and> now1 - a < 2 ^ 53 \<longrightarrow>
                    jsSub (Fin now1) (Fin a) = Fin (now1 - a)))) \<and>
         (\<forall>j d. pendingLog (stopTimer i now1 now2 s) = Some (j, d) \<longrightarrow> d \<noteq> NaN)"
proof -
  have inv: "engine_inv s"
    using assms by (rule reachable_inv)
  have run: "\<exists>a. startedAt t = Some a"
    if "find_task i s = Some t" "isRunning t" for t
    using inv find_task_mem [OF that(1)] that(2) by (auto simp: engine_inv_iff started_iff)
  have 0: "\<forall>t\<in>set (tasks s). isRunning t \<longrightarrow> startedAt t \<noteq> None"
    using inv by (auto simp: engine_inv_iff started_iff)
  have 1: "stopTimer i now1 now2 s = s" if "find_task i s = Some t" "startedAt t = None" for t
    using run [OF that(1)] that by (auto simp: stopTimer_def)
  have 2: "\<exists>a. startedAt t = Some a \<and>
              pendingLog (stopTimer i now1 now2 s) = Some (i, jsSub (Fin now1) (Fin a)) \<and>
              (a \<le> now1 \<longrightarrow> \<not> negative (jsSub (Fin now1) (Fin a))) \<and>
              (a \<le> now1 \<and> now1 - a < 2 ^ 53 \<longrightarrow> jsSub (Fin now1) (Fin a) = Fin (now1 - a))"
    if "find_task i s = Some t" "isRunning t" for t
  proof -
    from run [OF that] obtain a where a: "startedAt t = Some a"
      by blast
    have "pendingLog (stopTimer i now1 now2 s) = Some (i, jsSub (Fin now1) (Fin a))"
      using that a find_task_id [OF that(1)] by (simp add: stopTimer_def toNumber_def)
    moreover have "\<not> negative (jsSub (Fin now1) (Fin a))" if "a \<le> now1"
      using that by (simp add: jsSub_Fin toDouble_not_negative)
    moreover have "jsSub (Fin now1) (Fin a) = Fin (now1 - a)" if "a \<le> now1" "now1 - a < 2 ^ 53"
      using that by (simp add: jsSub_Fin toDouble_exact)
    ultimately show ?thesis
      using a by blast
  qed
  have "engine_inv (stopTimer i now1 now2 s)"
    using inv by (rule inv_stop)
  then have 3: "d \<noteq> NaN" if "pendingLog (stopTimer i now1 now2 s) = Some (j, d)" for j d
    using that by (simp add: engine_inv_iff)
  show ?thesis
    using 0 1 2 3 by blast
qed

theorem stopTimer_duration_witness:
  "reachable (startTimer ''t1'' 10 11 1 sampleState) \<and>
   stopTimer ''t1'' 25 26 sampleState = sampleState \<and>
   pendingLog (stopTimer ''t1'' 25 26 (startTimer ''t1'' 10 11 1 sampleState))
     = Some (''t1'', Fin 15)"
proof -
  have r0: "reachable sampleState"
    by (rule reachable_sampleState)
  have r1: "reachable (startTimer ''t1'' 10 11 1 sampleState)"
    by (rule reachable_startedState)
  have f0: "find_task ''t1'' sampleState = Some sampleTask"
    by (simp add: sampleState_def sampleTask_def find_task_def)
  have f1: "find_task ''t1'' (startTimer ''t1'' 10 11 1 sampleState)
      = Some (sampleTask\<lparr>isRunning := True, startedAt := Some 10, lastUpdatedMs := 11\<rparr>)"
    by (simp add: sampleState_def sampleTask_def find_task_def startTimer_def)
  have "stopTimer ''t1'' 25 26 sampleState = sampleState"
    using stopTimer_duration [OF r0, of "''t1''" 25 26] f0 by (simp add: sampleTask_def)
  moreover have "pendingLog (stopTimer ''t1'' 25 26 (startTimer ''t1'' 10 11 1 sampleState))
      = Some (''t1'', Fin 15)"
    using stopTimer_duration [OF r1, of "''t1''" 25 26] f1 by simp
  ultimately show ?thesis
    using r1 by simp
qed

text \<open>
  C7 as stated fails in a state the engine reaches: the task is started when the clock
  reads 100, the clock is set back, and the stop reads 50. The duration left pending is
  negative.
\<close>

theorem stopTimer_clock_set_back:
  "reachable lateStartState \<and>
   map_option startedAt (find_task ''t1'' lateStartState) = Some (Some 100) \<and>
   pendingLog (stopTimer ''t1'' 50 51 lateStartState) = Some (''t1'', Fin (- 50)) \<and>
   negative (Fin (- 50))"
  by (simp add: reachable_lateStartState)
    (simp add: lateStartState_def sampleState_def sampleTask_def startTimer_def stopTimer_def
      find_task_def jsSub_Fin toNumber_def toDouble_exact)

text \<open>
  C8. \<^verbatim>\<open>startTimer(id)\<close> returns the state it was given, \<open>lastUpdatedMs\<close> and all, when no
  task has the id, when the task is already running and when it is archived. When the
  task exists and is neither running nor archived, afterwards it is running, its
  \<open>startedAt\<close> is the first reading of the clock and its \<open>lastUpdatedMs\<close> the second; its
  other fields are as before.
\<close>

theorem startTimer_effect:
  "((find_task i s = None \<or> (\<exists>t. find_task i s = Some t \<and> (isRunning t \<or> isArchived t)))
      \<longrightarrow> startTimer i now1 now2 h s = s) \<and>
   (\<forall>t. find_task i s = Some t \<and> \<not> isRunning t \<and> \<not> isArchived t
      \<longrightarrow> find_task i (startTimer i now1 now2 h s)
            = Some (t\<lparr>isRunning := True, startedAt := Some now1, lastUpdatedMs := now2\<rparr>))"
  by (auto simp: startTimer_def find_task_def find_mutate)

theorem startTimer_effect_witness:
  "startTimer ''t9'' 30 31 2 sampleState = sampleState \<and>
   startTimer ''t1'' 30 31 2 (startTimer ''t1'' 10 11 1 sampleState)
     = startTimer ''t1'' 10 11 1 sampleState \<and>
   startTimer ''t1'' 30 31 2 (archiveTask ''t1'' 5 sampleState) = archiveTask ''t1'' 5 sampleState \<and>
   find_task ''t1'' (startTimer ''t1'' 10 11 1 sampleState)
     = Some (sampleTask\<lparr>isRunning := True, startedAt := Some 10, lastUpdatedMs := 11\<rparr>)"
  using startTimer_effect [of "''t9''" sampleState 30 31 2]
    startTimer_effect [of "''t1''" "startTimer ''t1'' 10 11 1 sampleState" 30 31 2]
    startTimer_effect [of "''t1''" "archiveTask ''t1'' 5 sampleState" 30 31 2]
    startTimer_effect [of "''t1''" sampleState 10 11 1]
  by (simp add: sampleState_def sampleTask_def find_task_def startTimer_def archiveTask_def)

text \<open>
  C9. The normalizer is idempotent: normalizing what it has returned, at any later time,
  returns the same object; and where it throws there is no object to normalize again. So
  \<^verbatim>\<open>normalize(normalize(t))\<close> and \<^verbatim>\<open>normalize(t)\<close> have the same outcome for every record.
\<close>

theorem normalizeTask_idempotent:
  "(case normalizeTask now task of Inl e \<Rightarrow> Inl e | Inr u \<Rightarrow> normalizeTask now' u)
     = normalizeTask now task \<and>
   (\<forall>u. normalizeTask now task = Inr u \<longrightarrow> normalizeTask now' u = Inr u)"
  by (cases "normalizeTask now task") (simp_all add: normalizeTask_again)

theorem normalizeTask_idempotent_witness:
  "normalizeTask 100 savedRunning
     = Inr [(''id'', JStr ''t1''), (''name'', JStr ''Task A''), (''isRunning'', JBool False),
            (''elapsedMs'', JNum (Fin 0)), (''logs'', JArr []), (''description'', JStr []),
            (''isArchived'', JBool False), (''createdAt'', JNum (Fin 100)),
            (''lastUpdatedMs'', JNum (Fin 100)), (''lastChecked'', JNull)] \<and>
   normalizeTask 200
       [(''id'', JStr ''t1''), (''name'', JStr ''Task A''), (''isRunning'', JBool False),
        (''elapsedMs'', JNum (Fin 0)), (''logs'', JArr []), (''description'', JStr []),
        (''isArchived'', JBool False), (''createdAt'', JNum (Fin 100)),
        (''lastUpdatedMs'', JNum (Fin 100)), (''lastChecked'', JNull)]
     = normalizeTask 100 savedRunning"
proof -
  have n: "normalizeTask 100 savedRunning
     = Inr [(''id'', JStr ''t1''), (''name'', JStr ''Task A''), (''isRunning'', JBool False),
            (''elapsedMs'', JNum (Fin 0)), (''logs'', JArr []), (''description'', JStr []),
            (''isArchived'', JBool False), (''createdAt'', JNum (Fin 100)),
            (''lastUpdatedMs'', JNum (Fin 100)), (''lastChecked'', JNull)]"
    by (simp add: normalizeTask_def savedRunning_def trimmedName_def trim_def isWhiteSpace_def
        finiteOr_def isFinite_def arrayOr_def isArray_def orElse_def truthy_def nullishOr_def
        assign_def Let_def)
  show ?thesis
    using normalizeTask_idempotent [of 200 100 savedRunning] by (simp add: n)
qed

text \<open>
  C10. With a session pending for a task that is no longer in the store, confirming with
  a comment that is not blank returns the state unchanged: no task is written to, the
  pending session stays, and no error is raised (the handler closes the dialog).
\<close>

theorem logFormSubmit_task_missing:
  "pendingLog s = Some (i, d) \<Longrightarrow> find_task i s = None \<Longrightarrow> trim txt \<noteq> [] \<Longrightarrow>
   logFormSubmit txt day now s = (DialogClosed, s)"
  by (auto simp: logFormSubmit_def finalizeLog_def)

theorem logFormSubmit_task_missing_witness:
  "pendingLog strandedState = Some (''t1'', Fin 15) \<and>
   find_task ''t1'' strandedState = None \<and>
   trim '' fixed it '' = ''fixed it'' \<and>
   logFormSubmit '' fixed it '' ''1/1/2024'' 40 strandedState = (DialogClosed, strandedState) \<and>
   pendingLog (snd (logFormSubmit '' fixed it '' ''1/1/2024'' 40 strandedState))
     = Some (''t1'', Fin 15)"
  using logFormSubmit_task_missing [of strandedState "''t1''" "Fin 15" "'' fixed it ''" "''1/1/2024''" 40]
  by (simp add: strandedState_eq find_task_def trim_def isWhiteSpace_def)

end
